theory Spec2Isabelle
  imports Complex_Main
begin

section \<open>Conventions of the embedding\<close>

text \<open>
  The development embeds \<^verbatim>\<open>createProgress\<close> of \<^verbatim>\<open>src/index.mjs\<close>.

  \<^item> A JavaScript number that the interface is given or that a bar holds is a \<open>real\<close>
    (a counter or a count a \<open>nat\<close> or an \<open>int\<close>), and the arithmetic of rendering is that
    of the reals. \<^verbatim>\<open>Math.round\<close> is \<open>round\<close>, which is \<open>\<lfloor>x + 1/2\<rfloor>\<close> as in JavaScript.
    The ratio that the sampler of \<^verbatim>\<open>runEstimated\<close> computes is evaluated as the program
    does, in the doubles of IEEE 754 with \<^verbatim>\<open>NaN\<close>, the infinities and the negative zero;
    \<^verbatim>\<open>Math.exp\<close>, which ECMAScript leaves to the implementation, is a function of the
    environment.
  \<^item> A JavaScript string is a \<open>string\<close>; a character outside ASCII is written as the
    bytes of its UTF-8 encoding.
  \<^item> \<^verbatim>\<open>chalk\<close> is the text styling boundary: \<^verbatim>\<open>chalk.cyan(s)\<close> is the piece
    \<open>Styled Cyan s\<close>, and a template literal is the list of its pieces.
  \<^item> The closure variables of an engine instance and of its handles and runs are
    fields of one explicit state, the \<open>world\<close>; every effect (a write to the
    terminal, a call of a user callback, a spawned child) is appended to its log.
  \<^item> A user callback is a function on a user state \<open>'u\<close> that returns normally; the
    observer of a tracked run also acts on the \<^verbatim>\<open>bar\<close> it is given.
  \<^item> \<^verbatim>\<open>setInterval\<close> registers a callback under a new identifier and
    \<^verbatim>\<open>clearInterval\<close> removes the registration; when a timer fires is for the
    environment to say. \<^verbatim>\<open>yieldLoop\<close> has no part in what follows and is left out.
\<close>

section \<open>Styled text\<close>

datatype style = Cyan | Dim | Green | Red | Yellow

datatype piece = Plain string | Styled style string

text \<open>\<^verbatim>\<open>s.repeat(n)\<close>; a negative count raises \<^verbatim>\<open>RangeError\<close> in JavaScript, and
  \<open>renderBar_counts_nonneg\<close> below shows that no count of the program is negative.\<close>

definition repeat :: "string \<Rightarrow> int \<Rightarrow> string" where
  "repeat s n = concat (replicate (nat n) s)"

definition digit_char :: "nat \<Rightarrow> char" where
  "digit_char d = char_of (48 + d)"

fun show_nat :: "nat \<Rightarrow> string" where
  "show_nat n = (if n < 10 then [digit_char n] else show_nat (n div 10) @ [digit_char (n mod 10)])"

declare show_nat.simps [simp del]

text \<open>The decimal text of an integral number, as a template literal prints it.\<close>

definition show_int :: "int \<Rightarrow> string" where
  "show_int i = (if i < 0 then CHR ''-'' # show_nat (nat (- i)) else show_nat (nat i))"

text \<open>\<^verbatim>\<open>\r\x1b[2K\<close>: carriage return, then the escape sequence that erases the line.\<close>

definition CR :: char where
  "CR = CHR 0x0D"

definition ESC :: char where
  "ESC = CHR 0x1B"

definition LF :: char where
  "LF = CHR 0x0A"

definition cr_erase_line :: string where
  "cr_erase_line = [CR, ESC] @ ''[2K''"

definition text_of :: "piece list \<Rightarrow> string" where
  "text_of ps = concat (map (\<lambda>p. case p of Plain s \<Rightarrow> s | Styled _ s \<Rightarrow> s) ps)"

section \<open>Configuration\<close>

record options =
  barWidth :: nat
  indent :: nat
  filledChar :: string
  emptyChar :: string
  spinnerFrames :: "string list"
  renderInterval :: real
  estimateBuffer :: real

definition braille :: "nat \<Rightarrow> string" where
  "braille b = [CHR 0xE2, CHR 0xA0, char_of b]"

definition default_options :: options where
  "default_options =
     \<lparr> barWidth = 24,
       indent = 4,
       filledChar = [CHR 0xE2, CHR 0x94, CHR 0x81],
       emptyChar = [CHR 0xE2, CHR 0x94, CHR 0x80],
       spinnerFrames = map braille [0x8B, 0x99, 0xB9, 0xB8, 0xBC, 0xB4, 0xA6, 0xA7, 0x87, 0x8F],
       renderInterval = 80,
       estimateBuffer = 0.15 \<rparr>"

definition pad :: "options \<Rightarrow> string" where
  "pad opts = repeat '' '' (int (indent opts))"

section \<open>Rendering\<close>

text \<open>The two local constants of \<^verbatim>\<open>renderBar\<close> and the counts it repeats the glyphs by.\<close>

definition clamp :: "real \<Rightarrow> real" where
  "clamp pct = max 0 (min 1 pct)"

definition filledCount :: "options \<Rightarrow> real \<Rightarrow> int" where
  "filledCount opts pct = round (real (barWidth opts) * clamp pct)"

definition emptyCount :: "options \<Rightarrow> real \<Rightarrow> int" where
  "emptyCount opts pct = int (barWidth opts) - filledCount opts pct"

definition renderBar :: "options \<Rightarrow> real \<Rightarrow> piece list" where
  "renderBar opts pct =
     [Styled Cyan (repeat (filledChar opts) (filledCount opts pct)),
      Styled Dim (repeat (emptyChar opts) (emptyCount opts pct))]"

section \<open>Binary64 arithmetic\<close>

text \<open>The sampler of \<^verbatim>\<open>runEstimated\<close> computes its ratio with the operators \<^verbatim>\<open>-\<close>, \<^verbatim>\<open>/\<close>
  and \<^verbatim>\<open>*\<close> and with \<^verbatim>\<open>Math.exp\<close>, on values of the type Number: the doubles of IEEE 754
  binary64, rounded to nearest with ties to even.\<close>

text \<open>Rounding to the nearest integer, a tie to the even one.\<close>

definition rne :: "real \<Rightarrow> int" where
  "rne y =
     (let f = \<lfloor>y\<rfloor>; d = y - of_int f
      in if d < 1 / 2 then f else if 1 / 2 < d then f + 1 else if even f then f else f + 1)"

text \<open>The exponent of the binade of \<open>x\<close>, which for a subnormal number is that of the
  least normal ones, and the distance between neighbouring doubles there: a double
  has a significand of 53 bits.\<close>

definition expo :: "real \<Rightarrow> int" where
  "expo x = max \<lfloor>log 2 \<bar>x\<bar>\<rfloor> (- 1022)"

definition quantum :: "real \<Rightarrow> real" where
  "quantum x = 2 powi (expo x - 52)"

text \<open>The double nearest to a real number, before the check for overflow.\<close>

definition fl :: "real \<Rightarrow> real" where
  "fl x = (if x = 0 then 0 else of_int (rne (x / quantum x)) * quantum x)"

text \<open>A value of the type Number: a real number (\<open>Fin 0\<close> is the positive zero), the
  negative zero, an infinity or \<^verbatim>\<open>NaN\<close>.\<close>

datatype num = Fin real | NegZero | PosInf | NegInf | NaN

definition is_zero :: "num \<Rightarrow> bool" where
  "is_zero n = (n = Fin 0 \<or> n = NegZero)"

definition is_inf :: "num \<Rightarrow> bool" where
  "is_inf n = (n = PosInf \<or> n = NegInf)"

definition negative :: "num \<Rightarrow> bool" where
  "negative n = (case n of Fin r \<Rightarrow> r < 0 | NegZero \<Rightarrow> True | NegInf \<Rightarrow> True | _ \<Rightarrow> False)"

definition val :: "num \<Rightarrow> real" where
  "val n = (case n of Fin r \<Rightarrow> r | _ \<Rightarrow> 0)"

definition zero_of :: "bool \<Rightarrow> num" where
  "zero_of s = (if s then NegZero else Fin 0)"

definition inf_of :: "bool \<Rightarrow> num" where
  "inf_of s = (if s then NegInf else PosInf)"

text \<open>The result of an operation whose exact value is \<open>x\<close>: the nearest double, an
  infinity where that is beyond the largest double, and a zero of sign \<open>s\<close> where it
  is zero.\<close>

definition round_num :: "bool \<Rightarrow> real \<Rightarrow> num" where
  "round_num s x =
     (let y = fl x
      in if 2 ^ 1024 \<le> \<bar>y\<bar> then inf_of (y < 0) else if y = 0 then zero_of s else Fin y)"

text \<open>The Number a numeric literal denotes, and the one a real-valued field of the
  model stands for.\<close>

definition lit :: "real \<Rightarrow> num" where
  "lit r = round_num (r < 0) r"

definition num_neg :: "num \<Rightarrow> num" where
  "num_neg n =
     (case n of
        Fin r \<Rightarrow> if r = 0 then NegZero else Fin (- r)
      | NegZero \<Rightarrow> Fin 0 | PosInf \<Rightarrow> NegInf | NegInf \<Rightarrow> PosInf | NaN \<Rightarrow> NaN)"

definition num_add :: "num \<Rightarrow> num \<Rightarrow> num" where
  "num_add a b =
     (if a = NaN \<or> b = NaN then NaN
      else if is_inf a \<and> is_inf b then (if a = b then a else NaN)
      else if is_inf a then a
      else if is_inf b then b
      else if is_zero a \<and> is_zero b then zero_of (negative a \<and> negative b)
      else round_num False (val a + val b))"

definition num_sub :: "num \<Rightarrow> num \<Rightarrow> num" where
  "num_sub a b = num_add a (num_neg b)"

definition num_mul :: "num \<Rightarrow> num \<Rightarrow> num" where
  "num_mul a b =
     (if a = NaN \<or> b = NaN then NaN
      else if (is_inf a \<and> is_zero b) \<or> (is_zero a \<and> is_inf b) then NaN
      else if is_inf a \<or> is_inf b then inf_of (negative a \<noteq> negative b)
      else round_num (negative a \<noteq> negative b) (val a * val b))"

definition num_div :: "num \<Rightarrow> num \<Rightarrow> num" where
  "num_div a b =
     (if a = NaN \<or> b = NaN then NaN
      else if (is_inf a \<and> is_inf b) \<or> (is_zero a \<and> is_zero b) then NaN
      else if is_inf a \<or> is_zero b then inf_of (negative a \<noteq> negative b)
      else if is_inf b then zero_of (negative a \<noteq> negative b)
      else round_num (negative a \<noteq> negative b) (val a / val b))"

text \<open>\<^verbatim>\<open>Math.exp\<close>: ECMAScript fixes the result at \<^verbatim>\<open>NaN\<close>, at the zeros and at the
  infinities, and leaves it to the implementation to approximate the exponential
  elsewhere; \<open>f\<close> is what the implementation at hand returns there.\<close>

definition Math_exp :: "(real \<Rightarrow> num) \<Rightarrow> num \<Rightarrow> num" where
  "Math_exp f n =
     (case n of
        NaN \<Rightarrow> NaN | PosInf \<Rightarrow> PosInf | NegInf \<Rightarrow> Fin 0 | NegZero \<Rightarrow> Fin 1
      | Fin x \<Rightarrow> if x = 0 then Fin 1 else f x)"

text \<open>An implementation that rounds the exponential correctly.\<close>

definition exp64 :: "real \<Rightarrow> num" where
  "exp64 x = round_num False (exp x)"

section \<open>The state of an engine instance and its environment\<close>

datatype callback = TolerateFailure | DoneLabel | ParseProgress string | OnOutput string

datatype error = CommandFailed "int option"

text \<open>The message of the \<^verbatim>\<open>Error\<close> a failed run rejects with; an exit code is \<^verbatim>\<open>null\<close>
  (\<open>None\<close>) when a signal ended the child.\<close>

definition message :: "error \<Rightarrow> string" where
  "message e = (case e of CommandFailed code \<Rightarrow>
     ''Command failed with exit code '' @ (case code of None \<Rightarrow> ''null'' | Some c \<Rightarrow> show_int c))"

datatype effect =
    StdoutWrite "piece list"
  | ConsoleError "piece list"
  | Spawn nat string string
  | Invoke nat callback

datatype pstate = Pending | Fulfilled | Rejected error

record handle =
  pct_cell :: nat
  timer_id :: nat

text \<open>The three callbacks the program passes to \<^verbatim>\<open>setInterval\<close>, each with the variables
  its closure holds: the render tick of \<^verbatim>\<open>start\<close> (label, the cell of \<^verbatim>\<open>pct\<close>), the
  sampler of \<^verbatim>\<open>runEstimated\<close> (\<^verbatim>\<open>startTime\<close>, \<^verbatim>\<open>adjustedMs\<close>, \<^verbatim>\<open>render\<close>) and the
  frame of \<^verbatim>\<open>snapTo100\<close> (label, \<^verbatim>\<open>currentPct\<close>, \<^verbatim>\<open>finalLabel\<close>, the counter
  \<^verbatim>\<open>frame\<close>, the promise it resolves, and the promise of the run whose close handler
  awaits it, if any).\<close>

datatype timer_cb =
    RenderCb string nat
  | PctCb real num handle
  | SnapCb string real "string option" nat nat "nat option"

text \<open>What a user's \<^verbatim>\<open>onOutput\<close> does with the \<^verbatim>\<open>bar\<close> it is given, ending in the
  user state it leaves.\<close>

datatype 'u bar_prog =
    BarReturn 'u
  | BarSetPct real "'u bar_prog"
  | BarGetPct "real \<Rightarrow> 'u bar_prog"
  | BarIncrement "'u bar_prog"

datatype 'u done_label = LabelText string | LabelFn "'u \<Rightarrow> string option \<times> 'u"

text \<open>The options object of \<^verbatim>\<open>runEstimated\<close> and \<^verbatim>\<open>runTracked\<close>; each destructures
  the fields it names and ignores the others. \<open>None\<close> is \<^verbatim>\<open>undefined\<close>.\<close>

record 'u run_opts =
  label :: string
  command :: string
  estimatedMs :: real
  cwd :: "string option"
  total_opt :: "real option"
  onOutput :: "(string \<Rightarrow> 'u \<Rightarrow> 'u bar_prog) option"
  parseProgress :: "(string \<Rightarrow> 'u \<Rightarrow> real option \<times> 'u) option"
  doneLabel :: "'u done_label option"
  tolerateFailure :: "('u \<Rightarrow> bool \<times> 'u) option"

datatype run_kind = Estimated nat | Tracked

text \<open>The closure of one run: its options, \<^verbatim>\<open>render\<close>, the sampler's timer
  (\<^verbatim>\<open>pctInterval\<close>, in \<open>Estimated\<close>), \<^verbatim>\<open>stderr\<close> / \<^verbatim>\<open>allStderr\<close>, \<^verbatim>\<open>completed\<close>, the
  promise it returned, and whether the child has emitted \<^verbatim>\<open>close\<close>.\<close>

record 'u run =
  cfg :: "'u run_opts"
  kind :: run_kind
  render :: handle
  stderr_text :: string
  completed :: nat
  promise :: nat
  exited :: bool

text \<open>The state of an engine instance (\<^verbatim>\<open>frameIdx\<close>, the cells of \<^verbatim>\<open>pct\<close> of its handles,
  its runs) and of its environment: the clock, the timers, the promises, the
  identifiers not yet given out, the effects so far, the state of the user's
  callbacks and \<^verbatim>\<open>Math.exp\<close>. \<open>not_numbers\<close> holds, for a cell in which the sampler of
  an estimated run has stored \<^verbatim>\<open>NaN\<close> or an infinity, that value.\<close>

record 'u world =
  frameIdx :: nat
  now :: real
  process_cwd :: string
  timers :: "nat \<rightharpoonup> real \<times> timer_cb"
  pcts :: "nat \<Rightarrow> real"
  promises :: "nat \<rightharpoonup> pstate"
  runs :: "nat \<rightharpoonup> 'u run"
  fresh :: nat
  effects :: "effect list"
  user :: 'u
  math_exp :: "real \<Rightarrow> num"
  not_numbers :: "nat \<rightharpoonup> num"

definition emit :: "effect \<Rightarrow> 'u world \<Rightarrow> 'u world" where
  "emit e w = w\<lparr>effects := effects w @ [e]\<rparr>"

definition setInterval :: "timer_cb \<Rightarrow> real \<Rightarrow> 'u world \<Rightarrow> nat \<times> 'u world" where
  "setInterval cb ms w =
     (fresh w, w\<lparr>timers := (timers w)(fresh w \<mapsto> (ms, cb)), fresh := fresh w + 1\<rparr>)"

definition clearInterval :: "nat \<Rightarrow> 'u world \<Rightarrow> 'u world" where
  "clearInterval i w = w\<lparr>timers := (timers w)(i := None)\<rparr>"

definition new_promise :: "'u world \<Rightarrow> nat \<times> 'u world" where
  "new_promise w =
     (fresh w, w\<lparr>promises := (promises w)(fresh w \<mapsto> Pending), fresh := fresh w + 1\<rparr>)"

text \<open>\<^verbatim>\<open>resolve\<close> and \<^verbatim>\<open>reject\<close>: a promise settles once.\<close>

definition settle :: "nat \<Rightarrow> pstate \<Rightarrow> 'u world \<Rightarrow> 'u world" where
  "settle p st w =
     (if promises w p = Some Pending then w\<lparr>promises := (promises w)(p \<mapsto> st)\<rparr> else w)"

section \<open>Painting\<close>

text \<open>\<^verbatim>\<open>spinnerFrames[frameIdx++ % spinnerFrames.length]\<close>: with no frames the index is
  \<^verbatim>\<open>NaN\<close> and the element \<^verbatim>\<open>undefined\<close>, which \<^verbatim>\<open>chalk\<close> prints as that word.\<close>

definition spinner_at :: "string list \<Rightarrow> nat \<Rightarrow> string" where
  "spinner_at frames i = (if frames = [] then ''undefined'' else frames ! (i mod length frames))"

text \<open>The line \<^verbatim>\<open>paint\<close> writes when the frame index is \<open>i\<close>.\<close>

definition frame_line :: "options \<Rightarrow> string \<Rightarrow> real \<Rightarrow> nat \<Rightarrow> piece list" where
  "frame_line opts lbl pct i =
     (let pctStr = show_int (round (pct * 100)) @ ''%'';
          frame = Styled Cyan (spinner_at (spinnerFrames opts) i)
      in [Plain cr_erase_line, Plain (pad opts), frame, Plain '' '', Plain lbl, Plain ''  '']
         @ renderBar opts pct @ [Plain ''  '', Styled Dim pctStr])"

definition paint :: "options \<Rightarrow> string \<Rightarrow> real \<Rightarrow> 'u world \<Rightarrow> 'u world" where
  "paint opts lbl pct w =
     emit (StdoutWrite (frame_line opts lbl pct (frameIdx w))) (w\<lparr>frameIdx := frameIdx w + 1\<rparr>)"

section \<open>Static final states\<close>

definition check_mark :: string where
  "check_mark = [CHR 0xE2, CHR 0x9C, CHR 0x93]"

definition cross_mark :: string where
  "cross_mark = [CHR 0xE2, CHR 0x9C, CHR 0x96]"

definition circle_mark :: string where
  "circle_mark = [CHR 0xE2, CHR 0x97, CHR 0x8B]"

definition warning_mark :: string where
  "warning_mark = [CHR 0xE2, CHR 0x9A, CHR 0xA0]"

text \<open>The template literals of \<^verbatim>\<open>succeed\<close> and \<^verbatim>\<open>fail\<close>.\<close>

definition succeed_line :: "options \<Rightarrow> string \<Rightarrow> piece list" where
  "succeed_line opts lbl =
     [Plain cr_erase_line, Plain (pad opts), Styled Green check_mark, Plain '' '', Plain lbl,
      Plain [LF]]"

definition fail_line :: "options \<Rightarrow> string \<Rightarrow> piece list" where
  "fail_line opts lbl =
     [Plain cr_erase_line, Plain (pad opts), Styled Red cross_mark, Plain '' '', Plain lbl,
      Plain [LF]]"

definition succeed :: "options \<Rightarrow> string \<Rightarrow> 'u world \<Rightarrow> 'u world" where
  "succeed opts lbl w = emit (StdoutWrite (succeed_line opts lbl)) w"

definition fail :: "options \<Rightarrow> string \<Rightarrow> 'u world \<Rightarrow> 'u world" where
  "fail opts lbl w = emit (StdoutWrite (fail_line opts lbl)) w"

definition info :: "options \<Rightarrow> string \<Rightarrow> 'u world \<Rightarrow> 'u world" where
  "info opts lbl w =
     emit (StdoutWrite [Plain (pad opts), Styled Dim circle_mark,
                        Plain '' '', Plain lbl, Plain [LF]]) w"

definition warn :: "options \<Rightarrow> string \<Rightarrow> 'u world \<Rightarrow> 'u world" where
  "warn opts lbl w =
     emit (StdoutWrite [Plain (pad opts), Styled Yellow warning_mark,
                        Plain '' '', Plain lbl, Plain [LF]]) w"

section \<open>Animated bar\<close>

text \<open>The three methods of the object \<^verbatim>\<open>start\<close> returns; \<^verbatim>\<open>setPct\<close> stores the value as
  it is.\<close>

definition setPct :: "handle \<Rightarrow> real \<Rightarrow> 'u world \<Rightarrow> 'u world" where
  "setPct h v w = w\<lparr>pcts := (pcts w)(pct_cell h := v)\<rparr>"

definition getPct :: "handle \<Rightarrow> 'u world \<Rightarrow> real" where
  "getPct h w = pcts w (pct_cell h)"

definition stop :: "handle \<Rightarrow> 'u world \<Rightarrow> 'u world" where
  "stop h w = clearInterval (timer_id h) w"

definition start :: "options \<Rightarrow> string \<Rightarrow> real \<Rightarrow> 'u world \<Rightarrow> handle \<times> 'u world" where
  "start opts lbl initialPct w =
     (let c = fresh w;
          w1 = w\<lparr>pcts := (pcts w)(c := initialPct), fresh := c + 1\<rparr>;
          (i, w2) = setInterval (RenderCb lbl c) (renderInterval opts) w1;
          w3 = paint opts lbl (pcts w2 c) w2
      in (\<lparr>pct_cell = c, timer_id = i\<rparr>, w3))"

text \<open>\<^verbatim>\<open>a || b\<close> on a label: \<^verbatim>\<open>undefined\<close> and the empty string are falsy.\<close>

definition or_else :: "string option \<Rightarrow> string \<Rightarrow> string" where
  "or_else a b = (case a of None \<Rightarrow> b | Some s \<Rightarrow> if s = [] then b else s)"

definition totalFrames :: nat where
  "totalFrames = 8"

text \<open>\<^verbatim>\<open>snapTo100\<close> makes its promise, sets \<^verbatim>\<open>frame\<close> to 0 and registers its callback
  at 30 ms. The last argument is the promise of the run whose close handler awaits
  the result and then calls \<^verbatim>\<open>resolve()\<close>; it is \<open>None\<close> for a direct call.\<close>

definition snapTo100 ::
  "string \<Rightarrow> real \<Rightarrow> string option \<Rightarrow> nat option \<Rightarrow> 'u world \<Rightarrow> nat \<times> 'u world" where
  "snapTo100 lbl currentPct finalLabel k w =
     (let (p, w1) = new_promise w;
          (i, w2) = setInterval (SnapCb lbl currentPct finalLabel 0 p k) 30 w1
      in (p, w2))"

text \<open>One run of the callback of \<^verbatim>\<open>snapTo100\<close>, registered as timer \<open>i\<close>.\<close>

definition snap_tick ::
  "options \<Rightarrow> nat \<Rightarrow> real \<Rightarrow> string \<Rightarrow> real \<Rightarrow> string option \<Rightarrow> nat \<Rightarrow> nat \<Rightarrow> nat option
     \<Rightarrow> 'u world \<Rightarrow> 'u world" where
  "snap_tick opts i ms lbl currentPct finalLabel frame p k w =
     (let frame' = frame + 1;
          w1 = w\<lparr>timers := (timers w)(i \<mapsto> (ms, SnapCb lbl currentPct finalLabel frame' p k))\<rparr>;
          w2 = paint opts lbl (currentPct + (1 - currentPct) * (real frame' / real totalFrames)) w1
      in if frame' \<ge> totalFrames then
           (let w3 = clearInterval i w2;
                w4 = succeed opts (or_else finalLabel lbl) w3;
                w5 = settle p Fulfilled w4
            in case k of None \<Rightarrow> w5 | Some q \<Rightarrow> settle q Fulfilled w5)
         else w2)"

section \<open>Command runners\<close>

text \<open>\<^verbatim>\<open>0.9 * (1 - Math.exp(-2.5 * (elapsed / adjustedMs)))\<close>, every operation on
  Numbers; the literals 1 and 2.5 are doubles.\<close>

definition sampled_ratio :: "(real \<Rightarrow> num) \<Rightarrow> num \<Rightarrow> num \<Rightarrow> num" where
  "sampled_ratio f elapsed adjustedMs =
     num_mul (lit (9 / 10))
       (num_sub (Fin 1) (Math_exp f (num_mul (Fin (- (5 / 2))) (num_div elapsed adjustedMs))))"

text \<open>\<^verbatim>\<open>render.setPct\<close> on the result of the sampler. A result that is a real number,
  the negative zero as 0, is stored in the cell as by \<open>setPct\<close>. \<^verbatim>\<open>NaN\<close> or an infinity,
  which the cells of the model do not hold, is recorded beside the cell; what the
  render tick and the snap draw of a cell in that state is outside the model.\<close>

definition store_ratio :: "handle \<Rightarrow> num \<Rightarrow> 'u world \<Rightarrow> 'u world" where
  "store_ratio h n w =
     (case n of
        Fin v \<Rightarrow> setPct h v (w\<lparr>not_numbers := (not_numbers w)(pct_cell h := None)\<rparr>)
      | NegZero \<Rightarrow> setPct h 0 (w\<lparr>not_numbers := (not_numbers w)(pct_cell h := None)\<rparr>)
      | _ \<Rightarrow> w\<lparr>not_numbers := (not_numbers w)(pct_cell h \<mapsto> n)\<rparr>)"

definition fire :: "options \<Rightarrow> nat \<Rightarrow> 'u world \<Rightarrow> 'u world" where
  "fire opts i w =
     (case timers w i of
        None \<Rightarrow> w
      | Some (ms, cb) \<Rightarrow>
          (case cb of
             RenderCb lbl c \<Rightarrow> paint opts lbl (pcts w c) w
           | PctCb startTime adjustedMs rnd \<Rightarrow>
               (let elapsed = num_sub (lit (now w)) (lit startTime)
                in store_ratio rnd (sampled_ratio (math_exp w) elapsed adjustedMs) w)
           | SnapCb lbl currentPct finalLabel frame p k \<Rightarrow>
               snap_tick opts i ms lbl currentPct finalLabel frame p k w))"

text \<open>\<^verbatim>\<open>spawn(command, {cwd: cwd || process.cwd(), ...})\<close> and the closure of the run,
  under the identifier of the child.\<close>

definition spawn :: "'u run_opts \<Rightarrow> run_kind \<Rightarrow> handle \<Rightarrow> nat \<Rightarrow> 'u world \<Rightarrow> 'u world" where
  "spawn ro knd rnd p w =
     (let child = fresh w;
          w1 = emit (Spawn child (command ro) (or_else (cwd ro) (process_cwd w))) w
      in w1\<lparr>fresh := child + 1,
            runs := (runs w1)(child \<mapsto>
              \<lparr>cfg = ro, kind = knd, render = rnd, stderr_text = [], completed = 0,
               promise = p, exited = False\<rparr>)\<rparr>)"

definition runEstimated :: "options \<Rightarrow> 'u run_opts \<Rightarrow> 'u world \<Rightarrow> nat \<times> 'u world" where
  "runEstimated opts ro w =
     (let adjustedMs = num_mul (lit (estimatedMs ro)) (num_add (Fin 1) (lit (estimateBuffer opts)));
          startTime = now w;
          (rnd, w1) = start opts (label ro) 0 w;
          (pctInterval, w2) = setInterval (PctCb startTime adjustedMs rnd) 200 w1;
          (p, w3) = new_promise w2
      in (p, spawn ro (Estimated pctInterval) rnd p w3))"

definition runTracked :: "options \<Rightarrow> 'u run_opts \<Rightarrow> 'u world \<Rightarrow> nat \<times> 'u world" where
  "runTracked opts ro w =
     (let (rnd, w1) = start opts (label ro) 0 w;
          (p, w2) = new_promise w1
      in (p, spawn ro Tracked rnd p w2))"

subsection \<open>Output of the child\<close>

text \<open>\<^verbatim>\<open>stderr += d.toString()\<close> and \<^verbatim>\<open>allStderr += text\<close>.\<close>

definition add_stderr :: "nat \<Rightarrow> string \<Rightarrow> 'u world \<Rightarrow> 'u world" where
  "add_stderr rid text w =
     (case runs w rid of
        None \<Rightarrow> w
      | Some r \<Rightarrow> w\<lparr>runs := (runs w)(rid \<mapsto> r\<lparr>stderr_text := stderr_text r @ text\<rparr>)\<rparr>)"

text \<open>The method \<^verbatim>\<open>increment\<close> of the \<^verbatim>\<open>bar\<close> of run \<open>rid\<close>; \<^verbatim>\<open>if (total)\<close> holds of
  a number other than 0.\<close>

definition increment :: "nat \<Rightarrow> 'u world \<Rightarrow> 'u world" where
  "increment rid w =
     (case runs w rid of
        None \<Rightarrow> w
      | Some r \<Rightarrow>
          (let n = completed r + 1;
               w1 = w\<lparr>runs := (runs w)(rid \<mapsto> r\<lparr>completed := n\<rparr>)\<rparr>
           in case total_opt (cfg r) of
                None \<Rightarrow> w1
              | Some t \<Rightarrow> if t = 0 then w1 else setPct (render r) (real n / t) w1))"

primrec run_bar :: "nat \<Rightarrow> handle \<Rightarrow> 'u bar_prog \<Rightarrow> 'u world \<Rightarrow> 'u world" where
  "run_bar rid h (BarReturn u) = (\<lambda>w. w\<lparr>user := u\<rparr>)"
| "run_bar rid h (BarSetPct v k) = (\<lambda>w. run_bar rid h k (setPct h v w))"
| "run_bar rid h (BarGetPct f) = (\<lambda>w. run_bar rid h (f (getPct h w)) w)"
| "run_bar rid h (BarIncrement k) = (\<lambda>w. run_bar rid h k (increment rid w))"

text \<open>The two \<^verbatim>\<open>if\<close> statements of \<^verbatim>\<open>processData\<close> on the callbacks, in turn.\<close>

definition parse_chunk :: "nat \<Rightarrow> 'u run \<Rightarrow> string \<Rightarrow> 'u world \<Rightarrow> 'u world" where
  "parse_chunk rid r text w =
     (case parseProgress (cfg r) of
        None \<Rightarrow> w
      | Some f \<Rightarrow>
          (let (pct, u) = f text (user w);
               w1 = (emit (Invoke rid (ParseProgress text)) w)\<lparr>user := u\<rparr>
           in case pct of None \<Rightarrow> w1 | Some v \<Rightarrow> setPct (render r) v w1))"

definition observe_chunk :: "nat \<Rightarrow> 'u run \<Rightarrow> string \<Rightarrow> 'u world \<Rightarrow> 'u world" where
  "observe_chunk rid r text w =
     (case onOutput (cfg r) of
        None \<Rightarrow> w
      | Some g \<Rightarrow> run_bar rid (render r) (g text (user w)) (emit (Invoke rid (OnOutput text)) w))"

definition processData :: "nat \<Rightarrow> 'u run \<Rightarrow> string \<Rightarrow> bool \<Rightarrow> 'u world \<Rightarrow> 'u world" where
  "processData rid r text isStderr w =
     (let w1 = (if isStderr then add_stderr rid text w else w);
          w2 = parse_chunk rid r text w1
      in observe_chunk rid r text w2)"

text \<open>The \<^verbatim>\<open>data\<close> listeners of \<^verbatim>\<open>runEstimated\<close>.\<close>

definition data_estimated :: "nat \<Rightarrow> bool \<Rightarrow> string \<Rightarrow> 'u world \<Rightarrow> 'u world" where
  "data_estimated rid isStderr text w = (if isStderr then add_stderr rid text w else w)"

subsection \<open>Exit of the child\<close>

text \<open>\<^verbatim>\<open>code === 0 || (tolerateFailure && tolerateFailure())\<close>\<close>

definition exit_ok ::
  "nat \<Rightarrow> int option \<Rightarrow> ('u \<Rightarrow> bool \<times> 'u) option \<Rightarrow> 'u world \<Rightarrow> bool \<times> 'u world" where
  "exit_ok rid code tol w =
     (if code = Some 0 then (True, w)
      else case tol of
             None \<Rightarrow> (False, w)
           | Some f \<Rightarrow>
               (let (b, u) = f (user w) in (b, (emit (Invoke rid TolerateFailure) w)\<lparr>user := u\<rparr>)))"

text \<open>\<^verbatim>\<open>typeof doneLabel === "function" ? doneLabel() : doneLabel\<close>\<close>

definition resolve_done ::
  "nat \<Rightarrow> 'u done_label option \<Rightarrow> 'u world \<Rightarrow> string option \<times> 'u world" where
  "resolve_done rid d w =
     (case d of
        None \<Rightarrow> (None, w)
      | Some (LabelText s) \<Rightarrow> (Some s, w)
      | Some (LabelFn f) \<Rightarrow>
          (let (s, u) = f (user w) in (s, (emit (Invoke rid DoneLabel) w)\<lparr>user := u\<rparr>)))"

text \<open>\<^verbatim>\<open>String.prototype.trim\<close> removes white space and line terminators from both ends:
  the code points U+0009 to U+000D, U+0020, U+00A0, U+1680, U+2000 to U+200A, U+2028,
  U+2029, U+202F, U+205F, U+3000 and U+FEFF, each here as the bytes of its encoding.\<close>

definition white_space :: "string list" where
  "white_space =
     [[CHR 0x09], [CHR 0x0A], [CHR 0x0B], [CHR 0x0C], [CHR 0x0D], [CHR 0x20],
      [CHR 0xC2, CHR 0xA0], [CHR 0xE1, CHR 0x9A, CHR 0x80]]
     @ map (\<lambda>c. [CHR 0xE2, CHR 0x80, c])
         [CHR 0x80, CHR 0x81, CHR 0x82, CHR 0x83, CHR 0x84, CHR 0x85, CHR 0x86, CHR 0x87,
          CHR 0x88, CHR 0x89, CHR 0x8A, CHR 0xA8, CHR 0xA9, CHR 0xAF]
     @ [[CHR 0xE2, CHR 0x81, CHR 0x9F], [CHR 0xE3, CHR 0x80, CHR 0x80],
        [CHR 0xEF, CHR 0xBB, CHR 0xBF]]"

text \<open>The length of the one of the strings \<open>ps\<close> that \<open>s\<close> starts with, 0 if it starts with
  none, and \<open>s\<close> without all such that it starts with.\<close>

definition leading :: "string list \<Rightarrow> string \<Rightarrow> nat" where
  "leading ps s =
     (case filter (\<lambda>p. take (length p) s = p) ps of [] \<Rightarrow> 0 | p # _ \<Rightarrow> length p)"

function trim_start :: "string list \<Rightarrow> string \<Rightarrow> string" where
  "trim_start ps s = (if leading ps s = 0 then s else trim_start ps (drop (leading ps s) s))"
  by pat_completeness auto

termination
proof (relation "measure (\<lambda>(ps, s). length s)")
  show "wf (measure (\<lambda>(ps :: string list, s :: string). length s))" by simp
next
  fix ps :: "string list" and s :: string
  assume n: "leading ps s \<noteq> 0"
  have "s \<noteq> []"
  proof
    assume e: "s = []"
    have "leading ps s = 0"
    proof (cases "filter (\<lambda>p. take (length p) s = p) ps")
      case Nil
      then show ?thesis by (simp add: leading_def)
    next
      case (Cons p xs)
      then have "p \<in> set (filter (\<lambda>p. take (length p) s = p) ps)" by simp
      then have "p = []" using e by simp
      then show ?thesis using Cons by (simp add: leading_def)
    qed
    then show False using n by simp
  qed
  then show "((ps, drop (leading ps s) s), (ps, s)) \<in> measure (\<lambda>(ps, s). length s)"
    using n by simp
qed

definition trim :: "string \<Rightarrow> string" where
  "trim s = rev (trim_start (map rev white_space) (rev (trim_start white_space s)))"

text \<open>The branch of a close handler for a failed command, the same in both runners.\<close>

definition report_failure :: "options \<Rightarrow> 'u run \<Rightarrow> int option \<Rightarrow> 'u world \<Rightarrow> 'u world" where
  "report_failure opts r code w =
     (let w1 = fail opts (label (cfg r)) w;
          w2 = (if trim (stderr_text r) \<noteq> []
                then emit (ConsoleError [Styled Red ([LF] @ trim (stderr_text r) @ [LF])]) w1
                else w1)
      in settle (promise r) (Rejected (CommandFailed code)) w2)"

text \<open>The branch for a command that counts as successful.\<close>

definition report_success :: "nat \<Rightarrow> 'u run \<Rightarrow> 'u world \<Rightarrow> 'u world" where
  "report_success rid r w =
     (let (final, w1) = resolve_done rid (doneLabel (cfg r)) w
      in snd (snapTo100 (label (cfg r)) (getPct (render r) w1) final (Some (promise r)) w1))"

definition close_estimated ::
  "options \<Rightarrow> nat \<Rightarrow> 'u run \<Rightarrow> nat \<Rightarrow> int option \<Rightarrow> 'u world \<Rightarrow> 'u world" where
  "close_estimated opts rid r pctInterval code w =
     (let w1 = clearInterval pctInterval w;
          w2 = stop (render r) w1;
          (ok, w3) = exit_ok rid code (tolerateFailure (cfg r)) w2
      in if ok then report_success rid r w3 else report_failure opts r code w3)"

definition close_tracked :: "options \<Rightarrow> nat \<Rightarrow> 'u run \<Rightarrow> int option \<Rightarrow> 'u world \<Rightarrow> 'u world" where
  "close_tracked opts rid r code w =
     (let w1 = stop (render r) w;
          (ok, w2) = exit_ok rid code (tolerateFailure (cfg r)) w1
      in if ok then report_success rid r w2 else report_failure opts r code w2)"

section \<open>The event loop\<close>

text \<open>What happens to an engine instance: a call of its interface, a reading of the
  clock, the firing of a timer, a chunk of output of a child (\<open>True\<close> for stderr) and
  the \<^verbatim>\<open>close\<close> event of a child. Node emits \<^verbatim>\<open>close\<close> once, after the streams of the
  child have ended; a cancelled timer does not fire.\<close>

datatype 'u action =
    CallPaint string real
  | CallSucceed string
  | CallFail string
  | CallInfo string
  | CallWarn string
  | CallStart string real
  | CallSetPct handle real
  | CallStop handle
  | CallSnapTo100 string real "string option"
  | CallRunEstimated "'u run_opts"
  | CallRunTracked "'u run_opts"
  | Clock real
  | Fire nat
  | Data nat bool string
  | Close nat "int option"

definition on_data :: "nat \<Rightarrow> bool \<Rightarrow> string \<Rightarrow> 'u world \<Rightarrow> 'u world" where
  "on_data rid isStderr text w =
     (case runs w rid of
        None \<Rightarrow> w
      | Some r \<Rightarrow>
          if exited r then w
          else (case kind r of
                  Estimated pctInterval \<Rightarrow> data_estimated rid isStderr text w
                | Tracked \<Rightarrow> processData rid r text isStderr w))"

definition on_close :: "options \<Rightarrow> nat \<Rightarrow> int option \<Rightarrow> 'u world \<Rightarrow> 'u world" where
  "on_close opts rid code w =
     (case runs w rid of
        None \<Rightarrow> w
      | Some r \<Rightarrow>
          if exited r then w
          else (let w1 = w\<lparr>runs := (runs w)(rid \<mapsto> r\<lparr>exited := True\<rparr>)\<rparr>
                in case kind r of
                     Estimated pctInterval \<Rightarrow> close_estimated opts rid r pctInterval code w1
                   | Tracked \<Rightarrow> close_tracked opts rid r code w1))"

fun step :: "options \<Rightarrow> 'u action \<Rightarrow> 'u world \<Rightarrow> 'u world" where
  "step opts (CallPaint lbl pct) w = paint opts lbl pct w"
| "step opts (CallSucceed lbl) w = succeed opts lbl w"
| "step opts (CallFail lbl) w = fail opts lbl w"
| "step opts (CallInfo lbl) w = info opts lbl w"
| "step opts (CallWarn lbl) w = warn opts lbl w"
| "step opts (CallStart lbl initialPct) w = snd (start opts lbl initialPct w)"
| "step opts (CallSetPct h v) w = setPct h v w"
| "step opts (CallStop h) w = stop h w"
| "step opts (CallSnapTo100 lbl currentPct finalLabel) w =
     snd (snapTo100 lbl currentPct finalLabel None w)"
| "step opts (CallRunEstimated ro) w = snd (runEstimated opts ro w)"
| "step opts (CallRunTracked ro) w = snd (runTracked opts ro w)"
| "step opts (Clock t) w = w\<lparr>now := t\<rparr>"
| "step opts (Fire i) w = fire opts i w"
| "step opts (Data rid isStderr text) w = on_data rid isStderr text w"
| "step opts (Close rid code) w = on_close opts rid code w"

fun exec :: "options \<Rightarrow> 'u action list \<Rightarrow> 'u world \<Rightarrow> 'u world" where
  "exec opts [] w = w"
| "exec opts (a # as) w = exec opts as (step opts a w)"

text \<open>A new engine instance (\<^verbatim>\<open>frameIdx = 0\<close>) in an environment with nothing yet, whose
  \<^verbatim>\<open>Math.exp\<close> rounds correctly.\<close>

definition init_world :: "'u \<Rightarrow> 'u world" where
  "init_world u =
     \<lparr> frameIdx = 0, now = 0, process_cwd = ''/'', timers = Map.empty, pcts = (\<lambda>_. 0),
       promises = Map.empty, runs = Map.empty, fresh = 0, effects = [], user = u,
       math_exp = exp64, not_numbers = Map.empty \<rparr>"

section \<open>Notions the properties are stated with\<close>

text \<open>The spinner glyph a write shows: a frame of \<^verbatim>\<open>paint\<close> is the one write whose
  third piece is the cyan glyph; the lines of the final states have a plain or a
  differently coloured piece there.\<close>

fun spinner_shown :: "effect \<Rightarrow> string list" where
  "spinner_shown (StdoutWrite (a # b # Styled Cyan s # rest)) = [s]"
| "spinner_shown e = []"

definition spinners :: "effect list \<Rightarrow> string list" where
  "spinners es = concat (map spinner_shown es)"

text \<open>What every operation and every event preserves: identifiers are only ever
  allocated upwards, the effects only grow, the frames written show consecutive
  spinner glyphs, a cancelled timer stays cancelled and a settled promise stays as it
  is.\<close>

definition evolves :: "options \<Rightarrow> 'u world \<Rightarrow> 'u world \<Rightarrow> bool" where
  "evolves opts w w' \<longleftrightarrow>
     fresh w \<le> fresh w' \<and> frameIdx w \<le> frameIdx w'
     \<and> (\<exists>new. effects w' = effects w @ new
            \<and> spinners new = map (spinner_at (spinnerFrames opts)) [frameIdx w..<frameIdx w'])
     \<and> (\<forall>i. i < fresh w \<longrightarrow> timers w i = None \<longrightarrow> timers w' i = None)
     \<and> (\<forall>p st. p < fresh w \<longrightarrow> promises w p = Some st \<longrightarrow> st \<noteq> Pending
            \<longrightarrow> promises w' p = Some st)"

text \<open>Whether a write starts by returning the carriage and erasing the current
  line.\<close>

definition starts_with_cr_erase :: "effect \<Rightarrow> bool" where
  "starts_with_cr_erase e =
     (case e of
        StdoutWrite ps \<Rightarrow> take (length cr_erase_line) (text_of ps) = cr_erase_line
      | _ \<Rightarrow> False)"

text \<open>The fields of a run that no event changes but its own \<^verbatim>\<open>close\<close>.\<close>

definition run_like :: "'u run \<Rightarrow> 'u run \<Rightarrow> bool" where
  "run_like r r' \<longleftrightarrow>
     cfg r' = cfg r \<and> kind r' = kind r \<and> exited r' = exited r \<and> render r' = render r
     \<and> promise r' = promise r"

definition keeps_run :: "nat \<Rightarrow> 'u world \<Rightarrow> 'u world \<Rightarrow> bool" where
  "keeps_run rid w w' \<longleftrightarrow> (\<forall>r. runs w rid = Some r \<longrightarrow> (\<exists>r'. runs w' rid = Some r' \<and> run_like r r'))"

text \<open>The calls of user callbacks one chunk of output leads to.\<close>

definition chunk_calls :: "nat \<Rightarrow> 'u run_opts \<Rightarrow> string \<Rightarrow> effect list" where
  "chunk_calls rid ro text =
     (case parseProgress ro of None \<Rightarrow> [] | Some f \<Rightarrow> [Invoke rid (ParseProgress text)])
     @ (case onOutput ro of None \<Rightarrow> [] | Some g \<Rightarrow> [Invoke rid (OnOutput text)])"

text \<open>The value of \<^verbatim>\<open>code === 0 || (tolerateFailure && tolerateFailure())\<close> on the user
  state at hand, the calls its evaluation makes and the user state it leaves; the
  same for the done label.\<close>

definition accepted :: "int option \<Rightarrow> ('u \<Rightarrow> bool \<times> 'u) option \<Rightarrow> 'u \<Rightarrow> bool" where
  "accepted code tol u \<longleftrightarrow> code = Some 0 \<or> (case tol of None \<Rightarrow> False | Some f \<Rightarrow> fst (f u))"

definition tolerate_calls :: "nat \<Rightarrow> int option \<Rightarrow> ('u \<Rightarrow> bool \<times> 'u) option \<Rightarrow> effect list" where
  "tolerate_calls rid code tol =
     (if code = Some 0 then []
      else case tol of None \<Rightarrow> [] | Some f \<Rightarrow> [Invoke rid TolerateFailure])"

definition tolerate_user :: "int option \<Rightarrow> ('u \<Rightarrow> bool \<times> 'u) option \<Rightarrow> 'u \<Rightarrow> 'u" where
  "tolerate_user code tol u =
     (if code = Some 0 then u else case tol of None \<Rightarrow> u | Some f \<Rightarrow> snd (f u))"

definition done_calls :: "nat \<Rightarrow> 'u done_label option \<Rightarrow> effect list" where
  "done_calls rid d = (case d of Some (LabelFn g) \<Rightarrow> [Invoke rid DoneLabel] | _ \<Rightarrow> [])"

definition done_value :: "'u done_label option \<Rightarrow> 'u \<Rightarrow> string option" where
  "done_value d u =
     (case d of None \<Rightarrow> None | Some (LabelText s) \<Rightarrow> Some s | Some (LabelFn g) \<Rightarrow> fst (g u))"

definition done_user :: "'u done_label option \<Rightarrow> 'u \<Rightarrow> 'u" where
  "done_user d u = (case d of Some (LabelFn g) \<Rightarrow> snd (g u) | _ \<Rightarrow> u)"

text \<open>The frames \<open>k + 1\<close> to \<open>k + n\<close> of a snap from ratio \<open>c\<close>, painted from frame index
  \<open>idx\<close> on.\<close>

definition snap_frames :: "options \<Rightarrow> string \<Rightarrow> real \<Rightarrow> nat \<Rightarrow> nat \<Rightarrow> nat \<Rightarrow> effect list" where
  "snap_frames opts lbl c idx k n =
     map (\<lambda>j. StdoutWrite (frame_line opts lbl
                 (c + (1 - c) * (real (k + j + 1) / real totalFrames)) (idx + j))) [0..<n]"

text \<open>The \<^verbatim>\<open>resolve()\<close> of the close handler that awaits a snap, if there is one.\<close>

definition settle_opt :: "nat option \<Rightarrow> 'u world \<Rightarrow> 'u world" where
  "settle_opt k w = (case k of None \<Rightarrow> w | Some q \<Rightarrow> settle q Fulfilled w)"

text \<open>Whether the effects from one state to a later one hold no call of the
  \<^verbatim>\<open>tolerateFailure\<close> of run \<open>rid\<close>.\<close>

definition quiet_for :: "nat \<Rightarrow> 'u world \<Rightarrow> 'u world \<Rightarrow> bool" where
  "quiet_for rid w w' \<longleftrightarrow>
     (\<exists>new. effects w' = effects w @ new \<and> Invoke rid TolerateFailure \<notin> set new)"

text \<open>The error block of a failed run, and the timers left when its close handler
  has cancelled its own.\<close>

definition stderr_block :: "'u run \<Rightarrow> effect list" where
  "stderr_block r =
     (if trim (stderr_text r) \<noteq> []
      then [ConsoleError [Styled Red ([LF] @ trim (stderr_text r) @ [LF])]]
      else [])"

definition timers_after_close :: "'u run \<Rightarrow> 'u world \<Rightarrow> (nat \<rightharpoonup> real \<times> timer_cb)" where
  "timers_after_close r w =
     (case kind r of
        Estimated pctInterval \<Rightarrow> ((timers w)(pctInterval := None))(timer_id (render r) := None)
      | Tracked \<Rightarrow> (timers w)(timer_id (render r) := None))"

definition is_console_error :: "effect \<Rightarrow> bool" where
  "is_console_error e = (case e of ConsoleError ps \<Rightarrow> True | _ \<Rightarrow> False)"

text \<open>The ratio of an estimated run as the specification writes it, a function on the
  reals.\<close>

definition spec_ratio :: "real \<Rightarrow> real \<Rightarrow> real" where
  "spec_ratio t adjustedMs = 0.9 * (1 - exp (- 2.5 * (t / adjustedMs)))"

text \<open>The double nearest to 0.9, which the literal \<^verbatim>\<open>0.9\<close> denotes; it lies above 0.9.\<close>

definition nine_tenths64 :: real where
  "nine_tenths64 = 8106479329266893 / 2 ^ 53"

text \<open>What the statements on the sampler ask of an implementation of \<^verbatim>\<open>Math.exp\<close>: at an
  argument that is not positive the result is a number between 0 and 1 within one part
  in \<open>2 ^ 52\<close> of the exponential, or within the least subnormal number of it; and,
  for the monotonicity of the samples alone, that a greater argument gives no lesser
  result.\<close>

definition exp_accurate :: "(real \<Rightarrow> num) \<Rightarrow> bool" where
  "exp_accurate f \<longleftrightarrow>
     (\<forall>x\<le>0. \<exists>y. f x = Fin y \<and> 0 \<le> y \<and> y \<le> 1
                \<and> \<bar>y - exp x\<bar> \<le> exp x / 2 ^ 52 + 1 / 2 ^ 1074)"

definition exp_monotone :: "(real \<Rightarrow> num) \<Rightarrow> bool" where
  "exp_monotone f \<longleftrightarrow> (\<forall>x y. x \<le> y \<longrightarrow> y \<le> 0 \<longrightarrow> val (f x) \<le> val (f y))"

text \<open>For \<open>x\<close> the exact quotient of a time that is not negative by a positive
  \<^verbatim>\<open>adjustedMs\<close>: the value of \<^verbatim>\<open>Math.exp(-2.5 * (elapsed / adjustedMs))\<close>, and that of
  the whole expression.\<close>

definition decay :: "(real \<Rightarrow> num) \<Rightarrow> real \<Rightarrow> real" where
  "decay f x =
     (let q = fl x
      in if 2 ^ 1024 \<le> q then 0
         else let z = fl (- (5 / 2) * q)
              in if z \<le> - (2 ^ 1024) then 0 else if z = 0 then 1 else val (f z))"

definition rounded_ratio :: "(real \<Rightarrow> num) \<Rightarrow> real \<Rightarrow> real" where
  "rounded_ratio f x = fl (nine_tenths64 * fl (1 - decay f x))"

section \<open>Example runs\<close>

text \<open>Two bars one after the other on one engine instance.\<close>

definition two_bars :: "unit action list" where
  "two_bars =
     [CallStart ''first'' 0, Fire 1, Fire 1, CallStop \<lparr>pct_cell = 0, timer_id = 1\<rparr>,
      CallSucceed ''first done'',
      CallStart ''second'' 0, Fire 3, CallStop \<lparr>pct_cell = 2, timer_id = 3\<rparr>]"

definition started :: "handle \<times> unit world" where
  "started = start default_options ''Querying tables'' 0 (init_world ())"

text \<open>A tracked run and an estimated run, each started on a new engine instance.\<close>

definition tracked_opts :: "unit run_opts" where
  "tracked_opts =
     \<lparr> label = ''Running migrations'', command = ''npx migrate up'', estimatedMs = 0,
       cwd = None, total_opt = Some 10,
       onOutput = Some (\<lambda>text u. if text = ''Applied'' then BarIncrement (BarReturn u)
                                  else BarReturn u),
       parseProgress = Some (\<lambda>text u. (if text = ''half'' then Some 0.5 else None, u)),
       doneLabel = None, tolerateFailure = None \<rparr>"

definition tracked :: "unit world" where
  "tracked = snd (runTracked default_options tracked_opts (init_world ()))"

definition tracked_run :: "unit run" where
  "tracked_run =
     \<lparr> cfg = tracked_opts, kind = Tracked, render = \<lparr>pct_cell = 0, timer_id = 1\<rparr>,
       stderr_text = [], completed = 0, promise = 2, exited = False \<rparr>"

definition estimated_opts :: "unit run_opts" where
  "estimated_opts =
     \<lparr> label = ''Starting containers'', command = ''docker compose up -d'',
       estimatedMs = 26000, cwd = None, total_opt = None, onOutput = None,
       parseProgress = None,
       doneLabel = Some (LabelFn (\<lambda>u. (Some ''Containers up'', u))),
       tolerateFailure = Some (\<lambda>u. (True, u)) \<rparr>"

definition estimated :: "unit world" where
  "estimated = snd (runEstimated default_options estimated_opts (init_world ()))"

definition estimated_run :: "unit run" where
  "estimated_run =
     \<lparr> cfg = estimated_opts, kind = Estimated 2, render = \<lparr>pct_cell = 0, timer_id = 1\<rparr>,
       stderr_text = [], completed = 0, promise = 3, exited = False \<rparr>"

text \<open>A tracked run whose child has written a message, or only a newline, to stderr.\<close>

definition failing_run :: "unit run" where
  "failing_run = tracked_run\<lparr>stderr_text := ''boom'' @ [LF]\<rparr>"

definition blank_run :: "unit run" where
  "blank_run = tracked_run\<lparr>stderr_text := [LF]\<rparr>"

definition failing :: "unit world" where
  "failing = step default_options (Data 3 True (''boom'' @ [LF])) tracked"

definition blank :: "unit world" where
  "blank = step default_options (Data 3 True [LF]) tracked"

text \<open>The tracked run with the parser alone.\<close>

definition parsed_opts :: "unit run_opts" where
  "parsed_opts = tracked_opts\<lparr>onOutput := None\<rparr>"

definition parsed :: "unit world" where
  "parsed = snd (runTracked default_options parsed_opts (init_world ()))"

definition parsed_run :: "unit run" where
  "parsed_run = tracked_run\<lparr>cfg := parsed_opts\<rparr>"

section \<open>The bar\<close>

lemma clamp_bounds: "0 \<le> clamp r \<and> clamp r \<le> 1"
  by (simp add: clamp_def)

lemma filledCount_bounds: "0 \<le> filledCount opts r \<and> filledCount opts r \<le> int (barWidth opts)"
proof -
  let ?n = "real (barWidth opts)"
  have c: "0 \<le> clamp r" "clamp r \<le> 1" using clamp_bounds by auto
  have lo: "0 \<le> ?n * clamp r" using c by simp
  have hi: "?n * clamp r \<le> ?n" using c by (simp add: mult_left_le)
  have "round (0::real) \<le> round (?n * clamp r)" using lo by (rule round_mono)
  moreover have "round (?n * clamp r) \<le> round ?n" using hi by (rule round_mono)
  ultimately show ?thesis by (simp add: filledCount_def)
qed

lemma renderBar_counts_nonneg: "0 \<le> filledCount opts r \<and> 0 \<le> emptyCount opts r"
  using filledCount_bounds [of opts r] by (simp add: emptyCount_def)

text \<open>
  Claim C3. For every ratio \<open>r\<close>, also one outside \<open>[0, 1]\<close>, \<^verbatim>\<open>renderBar\<close> repeats the
  filled glyph \<open>round (barWidth * clamp r)\<close> times, where \<open>clamp r\<close> is \<open>r\<close> clamped to
  \<open>[0, 1]\<close>, and the empty glyph \<open>barWidth - filled\<close> times; the filled count lies
  between 0 and \<open>barWidth\<close>, and the two counts add up to \<open>barWidth\<close>.
\<close>

theorem renderBar_counts:
  "renderBar opts r =
     [Styled Cyan (repeat (filledChar opts) (filledCount opts r)),
      Styled Dim (repeat (emptyChar opts) (emptyCount opts r))]
   \<and> filledCount opts r = round (real (barWidth opts) * clamp r)
   \<and> clamp r = max 0 (min 1 r)
   \<and> 0 \<le> filledCount opts r \<and> filledCount opts r \<le> int (barWidth opts)
   \<and> 0 \<le> emptyCount opts r
   \<and> filledCount opts r + emptyCount opts r = int (barWidth opts)"
  using filledCount_bounds [of opts r]
  by (simp add: renderBar_def emptyCount_def clamp_def filledCount_def)

section \<open>Rounding to a double\<close>

lemma rne_bounds: "\<lfloor>y\<rfloor> \<le> rne y \<and> rne y \<le> \<lfloor>y\<rfloor> + 1"
  by (simp add: rne_def Let_def)

lemma rne_of_int [simp]: "rne (of_int n) = n"
  by (simp add: rne_def)

lemma rne_le_int: "y \<le> of_int n \<Longrightarrow> rne y \<le> n"
proof (cases "y = of_int n")
  case True
  then show ?thesis by simp
next
  case False
  assume "y \<le> of_int n"
  then have "y < of_int n" using False by simp
  then have "\<lfloor>y\<rfloor> < n" by (simp add: floor_less_iff)
  then show ?thesis using rne_bounds [of y] by linarith
qed

lemma int_le_rne: "of_int n \<le> y \<Longrightarrow> n \<le> rne y"
proof -
  assume "of_int n \<le> y"
  then have "n \<le> \<lfloor>y\<rfloor>" by (simp add: le_floor_iff)
  then show ?thesis using rne_bounds [of y] by linarith
qed

lemma rne_mono: "x \<le> y \<Longrightarrow> rne x \<le> rne y"
proof -
  assume le: "x \<le> y"
  have f: "\<lfloor>x\<rfloor> \<le> \<lfloor>y\<rfloor>" using le by (rule floor_mono)
  show ?thesis
  proof (cases "\<lfloor>x\<rfloor> = \<lfloor>y\<rfloor>")
    case True
    then show ?thesis using le by (auto simp add: rne_def Let_def)
  next
    case False
    then have "\<lfloor>x\<rfloor> + 1 \<le> \<lfloor>y\<rfloor>" using f by linarith
    then show ?thesis using rne_bounds [of x] rne_bounds [of y] by linarith
  qed
qed

lemma rne_minus: "rne (- y) = - rne y"
proof (cases "y = of_int \<lfloor>y\<rfloor>")
  case True
  then have "rne (- y) = rne (of_int (- \<lfloor>y\<rfloor>))" by simp
  also have "\<dots> = - \<lfloor>y\<rfloor>" by (rule rne_of_int)
  also have "\<dots> = - rne y" using True by (metis rne_of_int)
  finally show ?thesis .
next
  case False
  then have lt: "of_int \<lfloor>y\<rfloor> < y" by (metis of_int_floor_le order_less_le)
  have fm: "\<lfloor>- y\<rfloor> = - \<lfloor>y\<rfloor> - 1"
  proof (rule floor_unique)
    show "of_int (- \<lfloor>y\<rfloor> - 1) \<le> - y" using floor_correct [of y] by simp linarith
    show "- y < of_int (- \<lfloor>y\<rfloor> - 1) + 1" using lt by simp
  qed
  show ?thesis
    unfolding rne_def Let_def fm using lt by (auto simp add: field_simps)
qed


lemma floor_log_bounds:
  assumes "x \<noteq> 0"
  shows "2 powi \<lfloor>log 2 \<bar>x\<bar>\<rfloor> \<le> \<bar>x\<bar>" and "\<bar>x\<bar> < 2 powi (\<lfloor>log 2 \<bar>x\<bar>\<rfloor> + 1)"
proof -
  have pos: "0 < \<bar>x\<bar>" using assms by simp
  have "2 powr real_of_int \<lfloor>log 2 \<bar>x\<bar>\<rfloor> \<le> \<bar>x\<bar>
        \<and> \<bar>x\<bar> < 2 powr (real_of_int \<lfloor>log 2 \<bar>x\<bar>\<rfloor> + 1)"
    using floor_log_eq_powr_iff [OF pos, of 2 "\<lfloor>log 2 \<bar>x\<bar>\<rfloor>"] by simp
  moreover have "real_of_int \<lfloor>log 2 \<bar>x\<bar>\<rfloor> + 1 = real_of_int (\<lfloor>log 2 \<bar>x\<bar>\<rfloor> + 1)" by simp
  ultimately show "2 powi \<lfloor>log 2 \<bar>x\<bar>\<rfloor> \<le> \<bar>x\<bar>" and "\<bar>x\<bar> < 2 powi (\<lfloor>log 2 \<bar>x\<bar>\<rfloor> + 1)"
    by (simp_all only: powr_real_of_int' [of 2, simplified])
qed

lemma floor_log_eqI:
  assumes "2 powi k \<le> \<bar>x\<bar>" and "\<bar>x\<bar> < 2 powi (k + 1)"
  shows "\<lfloor>log 2 \<bar>x\<bar>\<rfloor> = k"
proof -
  have "(0::real) < 2 powi k" by simp
  then have pos: "0 < \<bar>x\<bar>" using assms(1) by linarith
  have "real_of_int k + 1 = real_of_int (k + 1)" by simp
  then have "2 powr real_of_int k \<le> \<bar>x\<bar> \<and> \<bar>x\<bar> < 2 powr (real_of_int k + 1)"
    using assms by (simp only: powr_real_of_int' [of 2, simplified])
  then show ?thesis using floor_log_eq_powr_iff [OF pos, of 2 k] by simp
qed

lemma expo_minus [simp]: "expo (- x) = expo x"
  by (simp add: expo_def)

lemma expo_ge: "- 1022 \<le> expo x"
  by (simp add: expo_def)

lemma expo_upper:
  assumes "x \<noteq> 0"
  shows "\<bar>x\<bar> < 2 powi (expo x + 1)"
proof -
  have "\<bar>x\<bar> < 2 powi (\<lfloor>log 2 \<bar>x\<bar>\<rfloor> + 1)" using assms by (rule floor_log_bounds)
  also have "\<dots> \<le> 2 powi (expo x + 1)"
    by (rule power_int_increasing) (simp_all add: expo_def)
  finally show ?thesis .
qed

lemma expo_lower:
  assumes "x \<noteq> 0" and "- 1022 < expo x"
  shows "2 powi expo x \<le> \<bar>x\<bar>"
proof -
  have "expo x = \<lfloor>log 2 \<bar>x\<bar>\<rfloor>" using assms(2) by (simp add: expo_def max_def split: if_splits)
  then show ?thesis using floor_log_bounds(1) [OF assms(1)] by simp
qed

lemma expo_mono:
  assumes "x \<noteq> 0" and "\<bar>x\<bar> \<le> \<bar>y\<bar>"
  shows "expo x \<le> expo y"
proof -
  have "log 2 \<bar>x\<bar> \<le> log 2 \<bar>y\<bar>" using assms by simp
  then have "\<lfloor>log 2 \<bar>x\<bar>\<rfloor> \<le> \<lfloor>log 2 \<bar>y\<bar>\<rfloor>" by (rule floor_mono)
  then show ?thesis by (simp add: expo_def)
qed

lemma expo_eqI:
  assumes "2 powi k \<le> \<bar>x\<bar>" and "\<bar>x\<bar> < 2 powi (k + 1)" and "- 1022 \<le> k"
  shows "expo x = k"
  using floor_log_eqI [OF assms(1,2)] assms(3) by (simp add: expo_def)

lemma quantum_pos [simp]: "0 < quantum x"
  by (simp add: quantum_def)

lemma quantum_nonneg [simp]: "0 \<le> quantum x"
  by (simp add: quantum_def)

lemma quantum_neq0 [simp]: "quantum x \<noteq> 0"
  by (simp add: quantum_def)

lemma quantum_minus [simp]: "quantum (- x) = quantum x"
  by (simp add: quantum_def)

lemma fl_zero [simp]: "fl 0 = 0"
  by (simp add: fl_def)

lemma fl_minus: "fl (- x) = - fl x"
  by (simp add: fl_def rne_minus)

lemma fl_nonneg:
  assumes "0 \<le> x"
  shows "0 \<le> fl x"
proof -
  have "of_int 0 \<le> x / quantum x" using assms by simp
  then have "0 \<le> rne (x / quantum x)" by (rule int_le_rne)
  then show ?thesis by (simp add: fl_def)
qed

lemma two_powi_53: "2 powi (e + 1) = 2 ^ 53 * (2::real) powi (e - 52)"
proof -
  have "e + 1 = 53 + (e - 52)" by simp
  then have "(2::real) powi (e + 1) = 2 powi (53 + (e - 52))" by (rule arg_cong)
  also have "\<dots> = 2 powi 53 * 2 powi (e - 52)" by (rule power_int_add) simp
  finally show ?thesis by simp
qed

lemma two_powi_52: "2 powi e = 2 ^ 52 * (2::real) powi (e - 52)"
proof -
  have "e = 52 + (e - 52)" by simp
  then have "(2::real) powi e = 2 powi (52 + (e - 52))" by (rule arg_cong)
  also have "\<dots> = 2 powi 52 * 2 powi (e - 52)" by (rule power_int_add) simp
  finally show ?thesis by simp
qed

text \<open>A rounded value stays within the binade of its argument, ends included.\<close>

lemma fl_upper:
  assumes "0 < x"
  shows "fl x \<le> 2 powi (expo x + 1)"
proof -
  have "x < 2 powi (expo x + 1)" using expo_upper [of x] assms by simp
  then have "x < 2 ^ 53 * quantum x" by (simp add: two_powi_53 quantum_def)
  then have "x / quantum x \<le> of_int (2 ^ 53)" by (simp add: pos_divide_le_eq)
  then have "rne (x / quantum x) \<le> 2 ^ 53" by (rule rne_le_int)
  then have "real_of_int (rne (x / quantum x)) \<le> 2 ^ 53"
    by (metis of_int_le_iff of_int_numeral of_int_power)
  then have "real_of_int (rne (x / quantum x)) * quantum x \<le> 2 ^ 53 * quantum x"
    by (simp add: mult_right_mono)
  then show ?thesis using assms by (simp add: fl_def two_powi_53 quantum_def)
qed

lemma fl_lower:
  assumes "0 < x" and "- 1022 < expo x"
  shows "2 powi expo x \<le> fl x"
proof -
  have "2 powi expo x \<le> x" using expo_lower [of x] assms by simp
  then have "2 ^ 52 * quantum x \<le> x" by (simp add: two_powi_52 [of "expo x"] quantum_def)
  then have "of_int (2 ^ 52) \<le> x / quantum x" by (simp add: pos_le_divide_eq)
  then have "2 ^ 52 \<le> rne (x / quantum x)" by (rule int_le_rne)
  then have "2 ^ 52 \<le> real_of_int (rne (x / quantum x))"
    by (metis of_int_le_iff of_int_numeral of_int_power)
  then have "2 ^ 52 * quantum x \<le> real_of_int (rne (x / quantum x)) * quantum x"
    by (simp add: mult_right_mono)
  then show ?thesis using assms by (simp add: fl_def two_powi_52 [of "expo x"] quantum_def)
qed

lemma fl_pos_mono:
  assumes "0 < x" and "x \<le> y"
  shows "fl x \<le> fl y"
proof -
  have y: "0 < y" using assms by linarith
  have "expo x \<le> expo y" using assms by (intro expo_mono) simp_all
  then consider "expo x = expo y" | "expo x < expo y" by linarith
  then show ?thesis
  proof cases
    case 1
    then have q: "quantum x = quantum y" by (simp add: quantum_def)
    have "x / quantum y \<le> y / quantum y" using assms(2) by (simp add: divide_right_mono)
    then have "rne (x / quantum y) \<le> rne (y / quantum y)" by (rule rne_mono)
    then have "real_of_int (rne (x / quantum y)) * quantum y
                 \<le> real_of_int (rne (y / quantum y)) * quantum y"
      by (simp add: mult_right_mono)
    then show ?thesis using assms y by (simp add: fl_def q)
  next
    case 2
    have "fl x \<le> 2 powi (expo x + 1)" using assms(1) by (rule fl_upper)
    also have "\<dots> \<le> 2 powi expo y" using 2 by (intro power_int_increasing) simp_all
    also have "\<dots> \<le> fl y" using y 2 expo_ge [of x] by (intro fl_lower) simp_all
    finally show ?thesis .
  qed
qed

lemma fl_mono:
  assumes "x \<le> y"
  shows "fl x \<le> fl y"
proof -
  consider "0 < x" | "x \<le> 0" "0 \<le> y" | "y < 0" by linarith
  then show ?thesis
  proof cases
    case 1
    then show ?thesis using assms by (rule fl_pos_mono)
  next
    case 2
    have "0 \<le> fl (- x)" using 2 by (intro fl_nonneg) simp
    then have "fl x \<le> 0" by (simp add: fl_minus)
    moreover have "0 \<le> fl y" using 2 by (intro fl_nonneg)
    ultimately show ?thesis by linarith
  next
    case 3
    have "fl (- y) \<le> fl (- x)" using 3 assms by (intro fl_pos_mono) simp_all
    then show ?thesis by (simp add: fl_minus)
  qed
qed

lemma two_powi_le_D:
  assumes "(2::real) powi a \<le> 2 powi b"
  shows "a \<le> b"
proof (rule ccontr)
  assume "\<not> a \<le> b"
  then have "b < a" by simp
  then have "(2::real) powi b < 2 powi a" by (rule power_int_strict_increasing) simp
  then show False using assms by simp
qed

lemma two_powi_less_D:
  assumes "(2::real) powi a < 2 powi b"
  shows "a < b"
proof (rule ccontr)
  assume "\<not> a < b"
  then have "b \<le> a" by simp
  then have "(2::real) powi b \<le> 2 powi a" by (rule power_int_increasing) simp
  then show False using assms by simp
qed

text \<open>A number with a 53-bit significand and an exponent in range is a double.\<close>

lemma fl_exact:
  assumes "\<bar>m\<bar> < 2 ^ 53" and "- 1074 \<le> k"
  shows "fl (of_int m * 2 powi k) = of_int m * 2 powi k"
proof (cases "m = 0")
  case True
  then show ?thesis by simp
next
  case False
  let ?x = "real_of_int m * 2 powi k"
  have nz: "?x \<noteq> 0" using False by simp
  have le: "expo ?x - 52 \<le> k"
  proof (cases "expo ?x = - 1022")
    case True
    then show ?thesis using assms(2) by simp
  next
    case False
    then have "- 1022 < expo ?x" using expo_ge [of ?x] by linarith
    then have "2 powi expo ?x \<le> \<bar>?x\<bar>" using nz by (intro expo_lower)
    also have "\<bar>?x\<bar> = \<bar>real_of_int m\<bar> * 2 powi k" by (simp add: abs_mult)
    also have "\<dots> < 2 ^ 53 * 2 powi k"
    proof -
      have "\<bar>real_of_int m\<bar> < 2 ^ 53" using assms(1)
        by (metis of_int_abs of_int_less_iff of_int_numeral of_int_power)
      then show ?thesis by simp
    qed
    also have "\<dots> = 2 powi (53 + k)" by (simp add: power_int_add)
    finally have "(2::real) powi expo ?x < 2 powi (53 + k)" .
    then have "expo ?x < 53 + k" by (rule two_powi_less_D)
    then show ?thesis by linarith
  qed
  define q where "q = quantum ?x"
  define d where "d = nat (k - (expo ?x - 52))"
  have q: "0 < q" by (simp add: q_def)
  have k: "k = int d + (expo ?x - 52)" using le by (simp add: d_def)
  have "(2::real) powi k = 2 powi (int d + (expo ?x - 52))" using k by (rule arg_cong)
  also have "\<dots> = 2 powi int d * 2 powi (expo ?x - 52)" by (rule power_int_add) simp
  finally have p: "(2::real) powi k = 2 ^ d * q" by (simp add: quantum_def q_def)
  have x: "?x = real_of_int (m * 2 ^ d) * q" by (simp only: p) simp
  have "?x / q = real_of_int (m * 2 ^ d)" using q by (simp only: x) simp
  then have "rne (?x / q) = m * 2 ^ d" by (simp only: rne_of_int)
  then have "fl ?x = real_of_int (m * 2 ^ d) * q" using nz by (simp add: fl_def q_def)
  then show ?thesis by (simp only: x)
qed


lemma rne_near:
  assumes "\<bar>y - of_int n\<bar> < 1 / 2"
  shows "rne y = n"
proof -
  have lo: "of_int n - 1 / 2 < y" and hi: "y < of_int n + 1 / 2"
    using assms unfolding abs_less_iff by linarith+
  consider "of_int n \<le> y" | "y < of_int n" by linarith
  then show ?thesis
  proof cases
    case 1
    have "\<lfloor>y\<rfloor> = n"
    proof (rule floor_unique)
      show "of_int n \<le> y" by (rule 1)
      show "y < of_int n + 1" using hi by linarith
    qed
    then show ?thesis using hi 1 by (simp add: rne_def Let_def)
  next
    case 2
    have f: "\<lfloor>y\<rfloor> = n - 1"
    proof (rule floor_unique)
      show "of_int (n - 1) \<le> y" using lo by simp
      show "y < of_int (n - 1) + 1" using 2 by simp
    qed
    have "1 / 2 < y - of_int (n - 1)" using lo by simp
    then show ?thesis unfolding rne_def Let_def f by simp
  qed
qed

lemma rne_error: "\<bar>of_int (rne y) - y\<bar> \<le> 1 / 2"
  using floor_correct [of y] by (simp add: rne_def Let_def)

lemma fl_eqI:
  assumes "2 powi k \<le> \<bar>x\<bar>" and "\<bar>x\<bar> < 2 powi (k + 1)" and "- 1022 \<le> k"
    and "\<bar>x / 2 powi (k - 52) - of_int n\<bar> < 1 / 2"
  shows "fl x = of_int n * 2 powi (k - 52)"
proof -
  have e: "expo x = k" using assms(1-3) by (rule expo_eqI)
  have "0 < \<bar>x\<bar>" using assms(1) zero_less_power_int [of "2::real" k] by linarith
  then have nz: "x \<noteq> 0" by simp
  have "rne (x / 2 powi (k - 52)) = n" using assms(4) by (rule rne_near)
  then show ?thesis using nz by (simp add: fl_def quantum_def e)
qed

lemma fl_error: "\<bar>fl x - x\<bar> \<le> quantum x / 2"
proof (cases "x = 0")
  case True
  then show ?thesis by simp
next
  case False
  define q where "q = quantum x"
  have q: "0 < q" by (simp add: q_def)
  have "fl x - x = (of_int (rne (x / q)) - x / q) * q"
    using False q by (simp add: fl_def q_def left_diff_distrib)
  then have "\<bar>fl x - x\<bar> = \<bar>of_int (rne (x / q)) - x / q\<bar> * q"
    using q by (simp add: abs_mult)
  also have "\<dots> \<le> 1 / 2 * q"
    using q by (intro mult_right_mono rne_error) simp
  finally show ?thesis by (simp add: q_def)
qed

lemma quantum_le:
  assumes "x \<noteq> 0"
  shows "quantum x \<le> \<bar>x\<bar> / 2 ^ 52 + 1 / 2 ^ 1074"
proof (cases "expo x = - 1022")
  case True
  then have "quantum x = 1 / 2 ^ 1074" by (simp add: quantum_def power_int_minus_divide)
  then show ?thesis by simp
next
  case False
  then have e: "- 1022 < expo x" using expo_ge [of x] by linarith
  have "2 powi expo x \<le> \<bar>x\<bar>" using assms e by (rule expo_lower)
  then have "2 ^ 52 * quantum x \<le> \<bar>x\<bar>" by (simp add: two_powi_52 [of "expo x"] quantum_def)
  then have "quantum x \<le> \<bar>x\<bar> / 2 ^ 52" by (simp add: pos_le_divide_eq mult.commute)
  then show ?thesis by (simp add: add_increasing2)
qed

lemma fl_error_rel: "\<bar>fl x - x\<bar> \<le> \<bar>x\<bar> / 2 ^ 52 + 1 / 2 ^ 1074"
proof (cases "x = 0")
  case True
  then show ?thesis by simp
next
  case False
  have "\<bar>fl x - x\<bar> \<le> quantum x / 2" by (rule fl_error)
  also have "\<dots> \<le> quantum x" by simp
  also have "\<dots> \<le> \<bar>x\<bar> / 2 ^ 52 + 1 / 2 ^ 1074" using False by (rule quantum_le)
  finally show ?thesis .
qed

lemma fl_dyadic:
  assumes "\<bar>m\<bar> < 2 ^ 53" and "n \<le> 1074"
  shows "fl (of_int m / 2 ^ n) = of_int m / 2 ^ n"
proof -
  have "(2::real) powi (- int n) = 1 / 2 ^ n" by (simp add: power_int_minus_divide)
  then have "real_of_int m / 2 ^ n = of_int m * 2 powi (- int n)" by simp
  moreover have "fl (of_int m * 2 powi (- int n)) = of_int m * 2 powi (- int n)"
    using assms by (intro fl_exact) simp_all
  ultimately show ?thesis by simp
qed

lemma fl_int:
  assumes "\<bar>m\<bar> < 2 ^ 53"
  shows "fl (of_int m) = of_int m"
  using fl_dyadic [OF assms, of 0] by simp

lemma fl_1 [simp]: "fl 1 = 1"
  using fl_int [of 1] by simp

lemma fl_16: "fl 16 = 16"
  using fl_int [of 16] by simp

lemma fl_m40: "fl (- 40) = - 40"
  using fl_int [of "- 40"] by simp

lemma fl_m52: "fl (- (5 / 2)) = - (5 / 2)"
  using fl_dyadic [of "- 5" 1] by simp

lemma fl_nine_tenths64: "fl nine_tenths64 = nine_tenths64"
  unfolding nine_tenths64_def using fl_dyadic [of 8106479329266893 53] by simp

lemma fl_9_10: "fl (9 / 10) = nine_tenths64"
proof -
  have "fl (9 / 10) = of_int 8106479329266893 * 2 powi (- 1 - 52)"
    by (rule fl_eqI) (simp_all add: power_int_minus_divide)
  then show ?thesis by (simp add: nine_tenths64_def power_int_minus_divide)
qed

lemma nine_tenths64_bounds: "9 / 10 < nine_tenths64" "nine_tenths64 < 1"
  by (simp_all add: nine_tenths64_def)


lemma round_num_nonneg:
  assumes "0 \<le> x"
  shows "round_num False x = (if 2 ^ 1024 \<le> fl x then PosInf else Fin (fl x))"
proof -
  have "0 \<le> fl x" using assms by (rule fl_nonneg)
  then show ?thesis by (simp add: round_num_def Let_def inf_of_def zero_of_def)
qed

lemma round_num_nonpos:
  assumes "x \<le> 0"
  shows "round_num True x
           = (if fl x \<le> - (2 ^ 1024) then NegInf else if fl x = 0 then NegZero else Fin (fl x))"
proof -
  have "fl x \<le> fl 0" using assms by (rule fl_mono)
  then have "fl x \<le> 0" by simp
  then show ?thesis by (auto simp add: round_num_def Let_def inf_of_def zero_of_def)
qed

lemma num_div_pos:
  assumes "0 \<le> t" and "0 < a"
  shows "num_div (Fin t) (Fin a) = round_num False (t / a)"
  using assms by (simp add: num_div_def is_zero_def is_inf_def negative_def val_def)

lemma num_mul_decay_inf: "num_mul (Fin (- (5 / 2))) PosInf = NegInf"
  by (simp add: num_mul_def is_zero_def is_inf_def negative_def inf_of_def)

lemma num_mul_decay:
  assumes "0 \<le> q"
  shows "num_mul (Fin (- (5 / 2))) (Fin q) = round_num True (- (5 / 2) * q)"
  using assms by (simp add: num_mul_def is_zero_def is_inf_def negative_def val_def)

lemma round_num_one: "round_num False 1 = Fin 1"
  by (simp add: round_num_nonneg)

lemma num_sub_one:
  assumes "0 \<le> y" and "y \<le> 1"
  shows "num_sub (Fin 1) (Fin y) = Fin (fl (1 - y))"
proof -
  have "fl (1 - y) \<le> fl 1" using assms by (intro fl_mono) simp
  then have u: "fl (1 - y) < 2 ^ 1024" by simp
  have r: "round_num False (1 - y) = Fin (fl (1 - y))"
    using assms u by (simp add: round_num_nonneg)
  show ?thesis
    using r
    by (simp add: num_sub_def num_neg_def num_add_def is_zero_def is_inf_def val_def round_num_one)
qed

lemma lit_nine_tenths64: "lit (9 / 10) = Fin nine_tenths64"
  by (simp add: lit_def round_num_nonneg fl_9_10 nine_tenths64_def)

lemma num_mul_nine_tenths64:
  assumes "0 \<le> s" and "s \<le> 1"
  shows "num_mul (Fin nine_tenths64) (Fin s) = Fin (fl (nine_tenths64 * s))"
proof -
  have p: "0 < nine_tenths64" by (simp add: nine_tenths64_def)
  have "nine_tenths64 * s \<le> nine_tenths64 * 1" using assms p by (intro mult_left_mono) simp_all
  then have "fl (nine_tenths64 * s) \<le> fl nine_tenths64" by (intro fl_mono) simp
  then have "fl (nine_tenths64 * s) \<le> nine_tenths64" by (simp only: fl_nine_tenths64)
  then have u: "fl (nine_tenths64 * s) < 2 ^ 1024" using nine_tenths64_bounds(2) by simp
  have "0 \<le> nine_tenths64 * s" using assms p by simp
  then have r: "round_num False (nine_tenths64 * s) = Fin (fl (nine_tenths64 * s))"
    using u by (simp add: round_num_nonneg)
  show ?thesis
    using r p assms by (simp add: num_mul_def is_zero_def is_inf_def negative_def val_def)
qed

lemma lit_nonneg:
  assumes "0 \<le> r" and "fl r < 2 ^ 1024"
  shows "lit r = Fin (fl r)"
  using assms by (simp add: lit_def round_num_nonneg)

lemma num_add_pos:
  assumes "0 < x" and "0 \<le> y" and "fl (x + y) < 2 ^ 1024"
  shows "num_add (Fin x) (Fin y) = Fin (fl (x + y))"
  using assms by (simp add: num_add_def is_zero_def is_inf_def val_def round_num_nonneg)

lemma num_mul_pos:
  assumes "0 \<le> x" and "0 \<le> y" and "fl (x * y) < 2 ^ 1024"
  shows "num_mul (Fin x) (Fin y) = Fin (fl (x * y))"
  using assms
  by (simp add: num_mul_def is_zero_def is_inf_def negative_def val_def round_num_nonneg)

text \<open>The time between two readings of a clock that has not run backwards.\<close>

lemma elapsed_num:
  assumes "0 \<le> s" and "s \<le> n" and "n \<le> 2 ^ 53"
  shows "num_sub (lit n) (lit s) = Fin (fl (fl n - fl s))" and "0 \<le> fl (fl n - fl s)"
proof -
  have n0: "0 \<le> n" using assms by linarith
  have "fl n \<le> fl (of_int 1 * 2 powi 53)" using assms(3) by (intro fl_mono) simp
  then have N: "fl n \<le> 2 ^ 53" using fl_exact [of 1 53] by simp
  have S: "0 \<le> fl s" using assms(1) by (rule fl_nonneg)
  have SN: "fl s \<le> fl n" using assms(2) by (rule fl_mono)
  have ln: "lit n = Fin (fl n)" using n0 N by (intro lit_nonneg) simp_all
  have ls: "lit s = Fin (fl s)" using assms(1) SN N by (intro lit_nonneg) simp_all
  have d: "0 \<le> fl n - fl s" using SN by simp
  show "0 \<le> fl (fl n - fl s)" using d by (rule fl_nonneg)
  have "fl (fl n - fl s) \<le> fl (of_int 1 * 2 powi 53)" using S N by (intro fl_mono) simp
  then have D: "fl (fl n - fl s) \<le> 2 ^ 53" using fl_exact [of 1 53] by simp
  have r: "round_num False (fl n - fl s) = Fin (fl (fl n - fl s))"
    using d D by (simp add: round_num_nonneg)
  show "num_sub (lit n) (lit s) = Fin (fl (fl n - fl s))"
    using r S
    by (auto simp add: ln ls num_sub_def num_neg_def num_add_def is_zero_def is_inf_def val_def
        zero_of_def negative_def)
qed

text \<open>\<^verbatim>\<open>adjustedMs\<close> for an estimate of 26000 ms and the default buffer of 0.15: the
  double below 29900.\<close>

lemma adjusted_default:
  "num_mul (lit 26000) (num_add (Fin 1) (lit (15 / 100))) = Fin (8218849417625599 / 2 ^ 38)"
proof -
  have "fl (15 / 100) = of_int 5404319552844595 * 2 powi (- 3 - 52)"
    by (rule fl_eqI) (simp_all add: power_int_minus_divide)
  then have b: "fl (15 / 100) = 5404319552844595 / 2 ^ 55"
    by (simp add: power_int_minus_divide)
  have "lit (15 / 100) = Fin (fl (15 / 100))"
    by (rule lit_nonneg) (simp_all only: b, simp_all)
  then have 1: "lit (15 / 100) = Fin (5404319552844595 / 2 ^ 55)" by (simp only: b)
  have "fl (1 + 5404319552844595 / 2 ^ 55) = of_int 5179139571476070 * 2 powi (0 - 52)"
    by (rule fl_eqI) (simp_all add: power_int_minus_divide)
  then have s: "fl (1 + 5404319552844595 / 2 ^ 55) = 5179139571476070 / 2 ^ 52"
    by (simp add: power_int_minus_divide)
  have "num_add (Fin 1) (Fin (5404319552844595 / 2 ^ 55))
          = Fin (fl (1 + 5404319552844595 / 2 ^ 55))"
    by (rule num_add_pos) (simp_all only: s, simp_all)
  then have 2: "num_add (Fin 1) (Fin (5404319552844595 / 2 ^ 55))
                  = Fin (5179139571476070 / 2 ^ 52)"
    by (simp only: s)
  have e: "fl 26000 = 26000" using fl_int [of 26000] by simp
  have "lit 26000 = Fin (fl 26000)" by (rule lit_nonneg) (simp_all only: e, simp_all)
  then have 3: "lit 26000 = Fin 26000" by (simp only: e)
  have "fl (26000 * (5179139571476070 / 2 ^ 52))
          = of_int 8218849417625599 * 2 powi (14 - 52)"
    by (rule fl_eqI) (simp_all add: power_int_minus_divide)
  then have m: "fl (26000 * (5179139571476070 / 2 ^ 52)) = 8218849417625599 / 2 ^ 38"
    by (simp add: power_int_minus_divide)
  have "num_mul (Fin 26000) (Fin (5179139571476070 / 2 ^ 52))
          = Fin (fl (26000 * (5179139571476070 / 2 ^ 52)))"
    by (rule num_mul_pos) (simp_all only: m, simp_all)
  then have 4: "num_mul (Fin 26000) (Fin (5179139571476070 / 2 ^ 52))
                  = Fin (8218849417625599 / 2 ^ 38)"
    by (simp only: m)
  show ?thesis by (simp only: 1 2 3 4)
qed

section \<open>What every step preserves\<close>

lemma spinners_append [simp]: "spinners (xs @ ys) = spinners xs @ spinners ys"
  by (simp add: spinners_def)

lemma spinners_Nil [simp]: "spinners [] = []"
  by (simp add: spinners_def)

lemma spinners_Cons [simp]: "spinners (e # es) = spinner_shown e @ spinners es"
  by (simp add: spinners_def)

lemma evolves_refl: "evolves opts w w"
  by (simp add: evolves_def)

lemma upt_split: "a \<le> b \<Longrightarrow> b \<le> c \<Longrightarrow> [a..<c] = [a..<b] @ [b..<(c::nat)]"
  by (metis le_Suc_ex upt_add_eq_append)

lemma evolves_trans:
  assumes "evolves opts w1 w2" and "evolves opts w2 w3"
  shows "evolves opts w1 w3"
proof -
  from assms(1) obtain n1 where
    a: "fresh w1 \<le> fresh w2" "frameIdx w1 \<le> frameIdx w2"
       "effects w2 = effects w1 @ n1"
       "spinners n1 = map (spinner_at (spinnerFrames opts)) [frameIdx w1..<frameIdx w2]"
       "\<And>i. i < fresh w1 \<Longrightarrow> timers w1 i = None \<Longrightarrow> timers w2 i = None"
       "\<And>p st. p < fresh w1 \<Longrightarrow> promises w1 p = Some st \<Longrightarrow> st \<noteq> Pending
            \<Longrightarrow> promises w2 p = Some st"
    unfolding evolves_def by blast
  from assms(2) obtain n2 where
    b: "fresh w2 \<le> fresh w3" "frameIdx w2 \<le> frameIdx w3"
       "effects w3 = effects w2 @ n2"
       "spinners n2 = map (spinner_at (spinnerFrames opts)) [frameIdx w2..<frameIdx w3]"
       "\<And>i. i < fresh w2 \<Longrightarrow> timers w2 i = None \<Longrightarrow> timers w3 i = None"
       "\<And>p st. p < fresh w2 \<Longrightarrow> promises w2 p = Some st \<Longrightarrow> st \<noteq> Pending
            \<Longrightarrow> promises w3 p = Some st"
    unfolding evolves_def by blast
  have e: "effects w3 = effects w1 @ (n1 @ n2)" using a(3) b(3) by simp
  have s: "spinners (n1 @ n2) = map (spinner_at (spinnerFrames opts)) [frameIdx w1..<frameIdx w3]"
    using a(4) b(4) upt_split [OF a(2) b(2)] by simp
  have t: "\<And>i. i < fresh w1 \<Longrightarrow> timers w1 i = None \<Longrightarrow> timers w3 i = None"
    using a(1) a(5) b(5) by (meson less_le_trans)
  have p: "\<And>p st. p < fresh w1 \<Longrightarrow> promises w1 p = Some st \<Longrightarrow> st \<noteq> Pending
            \<Longrightarrow> promises w3 p = Some st"
    using a(1) a(6) b(6) by (meson less_le_trans)
  show ?thesis
    unfolding evolves_def using a(1,2) b(1,2) e s t p by (meson le_trans)
qed

lemma spinner_frame_line [simp]:
  "spinner_shown (StdoutWrite (frame_line opts lbl pct i)) = [spinner_at (spinnerFrames opts) i]"
  by (simp add: frame_line_def)

lemma evolves_paint: "evolves opts w (paint opts lbl pct w)"
  by (simp add: evolves_def paint_def emit_def)

lemma evolves_emit: "spinner_shown e = [] \<Longrightarrow> evolves opts w (emit e w)"
  by (simp add: evolves_def emit_def)

lemma evolves_succeed: "evolves opts w (succeed opts lbl w)"
  by (simp add: succeed_def succeed_line_def evolves_emit)

lemma evolves_fail: "evolves opts w (fail opts lbl w)"
  by (simp add: fail_def fail_line_def evolves_emit)

lemma evolves_info: "evolves opts w (info opts lbl w)"
  by (simp add: info_def evolves_emit)

lemma evolves_warn: "evolves opts w (warn opts lbl w)"
  by (simp add: warn_def evolves_emit)

lemma evolves_setPct: "evolves opts w (setPct h v w)"
  by (simp add: evolves_def setPct_def)

lemma evolves_clearInterval: "evolves opts w (clearInterval i w)"
  by (simp add: evolves_def clearInterval_def)

lemma evolves_stop: "evolves opts w (stop h w)"
  by (simp add: stop_def evolves_clearInterval)

lemma evolves_settle: "evolves opts w (settle p st w)"
  by (auto simp add: evolves_def settle_def)

lemma evolves_setInterval: "evolves opts w (snd (setInterval cb ms w))"
  by (simp add: evolves_def setInterval_def)

lemma evolves_new_promise: "evolves opts w (snd (new_promise w))"
  by (simp add: evolves_def new_promise_def)

lemma evolves_user: "evolves opts w (w\<lparr>user := u\<rparr>)"
  by (simp add: evolves_def)

lemma evolves_start: "evolves opts w (snd (start opts lbl p w))"
proof -
  let ?w1 = "w\<lparr>pcts := (pcts w)(fresh w := p), fresh := fresh w + 1\<rparr>"
  have 1: "evolves opts w ?w1" by (simp add: evolves_def)
  have 2: "evolves opts ?w1 (snd (setInterval (RenderCb lbl (fresh w)) (renderInterval opts) ?w1))"
    by (rule evolves_setInterval)
  have 3: "snd (start opts lbl p w) =
      paint opts lbl (pcts (snd (setInterval (RenderCb lbl (fresh w)) (renderInterval opts) ?w1)) (fresh w))
        (snd (setInterval (RenderCb lbl (fresh w)) (renderInterval opts) ?w1))"
    by (simp add: start_def Let_def split: prod.splits)
  show ?thesis
    unfolding 3 using 1 2 evolves_paint evolves_trans by blast
qed


lemma evolves_same:
  "fresh w' = fresh w \<Longrightarrow> frameIdx w' = frameIdx w \<Longrightarrow> effects w' = effects w \<Longrightarrow>
   timers w' = timers w \<Longrightarrow> promises w' = promises w \<Longrightarrow> evolves opts w w'"
  by (simp add: evolves_def)

lemma evolves_snapTo100: "evolves opts w (snd (snapTo100 lbl c fin k w))"
proof -
  have 1: "evolves opts w (snd (new_promise w))" by (rule evolves_new_promise)
  have 2: "snd (snapTo100 lbl c fin k w) =
      snd (setInterval (SnapCb lbl c fin 0 (fst (new_promise w)) k) 30 (snd (new_promise w)))"
    by (simp add: snapTo100_def Let_def case_prod_beta)
  show ?thesis
    unfolding 2 using 1 evolves_setInterval evolves_trans by blast
qed

lemma evolves_snap_tick:
  assumes "timers w i \<noteq> None"
  shows "evolves opts w (snap_tick opts i ms lbl c fin frame p k w)"
proof -
  let ?w1 = "w\<lparr>timers := (timers w)(i \<mapsto> (ms, SnapCb lbl c fin (frame + 1) p k))\<rparr>"
  let ?w2 = "paint opts lbl (c + (1 - c) * (real (frame + 1) / real totalFrames)) ?w1"
  let ?w3 = "clearInterval i ?w2"
  let ?w4 = "succeed opts (or_else fin lbl) ?w3"
  let ?w5 = "settle p Fulfilled ?w4"
  have 1: "evolves opts w ?w1" using assms by (auto simp add: evolves_def)
  have 2: "evolves opts w ?w2" using 1 evolves_paint evolves_trans by blast
  have 3: "evolves opts w ?w3" using 2 evolves_clearInterval evolves_trans by blast
  have 4: "evolves opts w ?w4" using 3 evolves_succeed evolves_trans by blast
  have 5: "evolves opts w ?w5" using 4 evolves_settle evolves_trans by blast
  have 6: "\<And>q. evolves opts w (settle q Fulfilled ?w5)"
    using 5 evolves_settle evolves_trans by blast
  show ?thesis
  proof (cases "totalFrames \<le> frame + 1")
    case False
    then show ?thesis unfolding snap_tick_def Let_def using 2 by (simp only: if_False)
  next
    case True
    show ?thesis
    proof (cases k)
      case None
      then show ?thesis
        unfolding snap_tick_def Let_def using True 5 by (simp only: if_True option.case)
    next
      case (Some q)
      then show ?thesis
        unfolding snap_tick_def Let_def using True 6 [of q] by (simp only: if_True option.case)
    qed
  qed
qed

lemma evolves_store_ratio: "evolves opts w (store_ratio h n w)"
  by (cases n) (simp_all add: evolves_def store_ratio_def setPct_def)

lemma evolves_fire: "evolves opts w (fire opts i w)"
proof (cases "timers w i")
  case None
  then show ?thesis by (simp add: fire_def evolves_refl)
next
  case (Some t)
  obtain ms cb where t: "t = (ms, cb)" by (cases t)
  have ne: "timers w i \<noteq> None" using Some by simp
  show ?thesis
    using Some t evolves_paint evolves_store_ratio evolves_snap_tick [OF ne]
    by (cases cb) (simp_all add: fire_def Let_def)
qed

lemma evolves_spawn: "evolves opts w (spawn ro knd rnd p w)"
  by (simp add: spawn_def Let_def emit_def evolves_def)

lemma evolves_runEstimated: "evolves opts w (snd (runEstimated opts ro w))"
proof -
  let ?s = "start opts (label ro) 0 w"
  let ?t = "setInterval (PctCb (now w)
      (num_mul (lit (estimatedMs ro)) (num_add (Fin 1) (lit (estimateBuffer opts)))) (fst ?s))
      200 (snd ?s)"
  let ?p = "new_promise (snd ?t)"
  have e: "snd (runEstimated opts ro w) = spawn ro (Estimated (fst ?t)) (fst ?s) (fst ?p) (snd ?p)"
    by (simp add: runEstimated_def Let_def case_prod_beta)
  have 1: "evolves opts w (snd ?s)" by (rule evolves_start)
  have 2: "evolves opts w (snd ?t)" using 1 evolves_setInterval evolves_trans by blast
  have 3: "evolves opts w (snd ?p)" using 2 evolves_new_promise evolves_trans by blast
  show ?thesis unfolding e using 3 evolves_spawn evolves_trans by blast
qed

lemma evolves_runTracked: "evolves opts w (snd (runTracked opts ro w))"
proof -
  let ?s = "start opts (label ro) 0 w"
  let ?p = "new_promise (snd ?s)"
  have e: "snd (runTracked opts ro w) = spawn ro Tracked (fst ?s) (fst ?p) (snd ?p)"
    by (simp add: runTracked_def Let_def case_prod_beta)
  have 1: "evolves opts w (snd ?s)" by (rule evolves_start)
  have 3: "evolves opts w (snd ?p)" using 1 evolves_new_promise evolves_trans by blast
  show ?thesis unfolding e using 3 evolves_spawn evolves_trans by blast
qed

lemma evolves_add_stderr: "evolves opts w (add_stderr rid text w)"
  by (simp add: add_stderr_def evolves_def split: option.splits)

lemma evolves_increment: "evolves opts w (increment rid w)"
  by (simp add: increment_def Let_def setPct_def evolves_def split: option.splits)

lemma evolves_run_bar: "evolves opts w (run_bar rid h prog w)"
proof (induction prog arbitrary: w)
  case (BarReturn u)
  show ?case by (simp add: evolves_user)
next
  case (BarSetPct v k)
  show ?case using BarSetPct [of "setPct h v w"] evolves_setPct evolves_trans by fastforce
next
  case (BarGetPct f)
  show ?case using BarGetPct by simp
next
  case (BarIncrement k)
  show ?case using BarIncrement [of "increment rid w"] evolves_increment evolves_trans by fastforce
qed

lemma evolves_parse_chunk: "evolves opts w (parse_chunk rid r text w)"
  by (simp add: parse_chunk_def Let_def case_prod_beta setPct_def emit_def evolves_def
      split: option.splits)

lemma evolves_observe_chunk: "evolves opts w (observe_chunk rid r text w)"
proof (cases "onOutput (cfg r)")
  case None
  then show ?thesis by (simp add: observe_chunk_def evolves_refl)
next
  case (Some g)
  have "evolves opts w (emit (Invoke rid (OnOutput text)) w)" by (simp add: evolves_emit)
  then show ?thesis
    using Some evolves_run_bar evolves_trans by (fastforce simp add: observe_chunk_def emit_def)
qed

lemma evolves_processData: "evolves opts w (processData rid r text b w)"
proof -
  let ?w1 = "if b then add_stderr rid text w else w"
  have 1: "evolves opts w ?w1" by (simp add: evolves_add_stderr evolves_refl)
  have 2: "evolves opts w (parse_chunk rid r text ?w1)"
    using 1 evolves_parse_chunk evolves_trans by blast
  show ?thesis
    unfolding processData_def Let_def using 2 evolves_observe_chunk evolves_trans by blast
qed

lemma evolves_on_data: "evolves opts w (on_data rid b text w)"
  by (simp add: on_data_def data_estimated_def evolves_refl evolves_add_stderr evolves_processData
      split: option.splits run_kind.splits)

lemma evolves_exit_ok: "evolves opts w (snd (exit_ok rid code tol w))"
  by (simp add: exit_ok_def case_prod_beta emit_def evolves_def split: option.splits)

lemma evolves_resolve_done: "evolves opts w (snd (resolve_done rid d w))"
  by (simp add: resolve_done_def case_prod_beta emit_def evolves_def
      split: option.splits done_label.splits)

lemma evolves_report_failure: "evolves opts w (report_failure opts r code w)"
proof -
  let ?w1 = "fail opts (label (cfg r)) w"
  let ?e = "ConsoleError [Styled Red ([LF] @ trim (stderr_text r) @ [LF])]"
  have 1: "evolves opts w ?w1" by (rule evolves_fail)
  have "evolves opts ?w1 (emit ?e ?w1)" by (rule evolves_emit) simp
  then have 2: "evolves opts w (emit ?e ?w1)" using 1 evolves_trans by blast
  have 3: "evolves opts w (if trim (stderr_text r) \<noteq> [] then emit ?e ?w1 else ?w1)"
    using 1 2 by (simp only: if_split) blast
  show ?thesis
    unfolding report_failure_def Let_def
    using 3 evolves_settle evolves_trans by blast
qed

lemma evolves_report_success: "evolves opts w (report_success rid r w)"
proof -
  have 1: "evolves opts w (snd (resolve_done rid (doneLabel (cfg r)) w))"
    by (rule evolves_resolve_done)
  show ?thesis
    unfolding report_success_def Let_def case_prod_beta
    using 1 evolves_snapTo100 evolves_trans by blast
qed

lemma evolves_finish:
  assumes "evolves opts w w2"
  shows "evolves opts w
     (case exit_ok rid code tol w2 of
        (ok, w3) \<Rightarrow> if ok then report_success rid r w3 else report_failure opts r code w3)"
proof -
  obtain ok w3 where e: "exit_ok rid code tol w2 = (ok, w3)" by (cases "exit_ok rid code tol w2")
  have "evolves opts w2 w3" using evolves_exit_ok [of opts w2 rid code tol] e by simp
  then have 3: "evolves opts w w3" using assms evolves_trans by blast
  have 4: "evolves opts w (report_success rid r w3)"
    using 3 evolves_report_success evolves_trans by blast
  have 5: "evolves opts w (report_failure opts r code w3)"
    using 3 evolves_report_failure evolves_trans by blast
  show ?thesis using e 4 5 by simp
qed

lemma evolves_close_estimated: "evolves opts w (close_estimated opts rid r i code w)"
proof -
  have "evolves opts w (stop (render r) (clearInterval i w))"
    using evolves_clearInterval evolves_stop evolves_trans by blast
  then show ?thesis
    unfolding close_estimated_def Let_def by (rule evolves_finish)
qed

lemma evolves_close_tracked: "evolves opts w (close_tracked opts rid r code w)"
  unfolding close_tracked_def Let_def using evolves_stop by (rule evolves_finish)

lemma evolves_on_close: "evolves opts w (on_close opts rid code w)"
proof (cases "runs w rid")
  case None
  then show ?thesis by (simp add: on_close_def evolves_refl)
next
  case (Some r)
  let ?w1 = "w\<lparr>runs := (runs w)(rid \<mapsto> r\<lparr>exited := True\<rparr>)\<rparr>"
  have 1: "evolves opts w ?w1" by (simp add: evolves_same)
  have 2: "\<And>i. evolves opts w (close_estimated opts rid r i code ?w1)"
    using 1 evolves_close_estimated evolves_trans by blast
  have 3: "evolves opts w (close_tracked opts rid r code ?w1)"
    using 1 evolves_close_tracked evolves_trans by blast
  show ?thesis
    using Some 2 3 by (simp add: on_close_def Let_def evolves_refl split: run_kind.splits)
qed

lemma evolves_step: "evolves opts w (step opts a w)"
proof (cases a)
  case (Clock t)
  then show ?thesis by (simp add: evolves_same)
qed (simp_all add: evolves_paint evolves_succeed evolves_fail evolves_info evolves_warn
       evolves_start evolves_setPct evolves_stop evolves_snapTo100 evolves_runEstimated
       evolves_runTracked evolves_fire evolves_on_data evolves_on_close)

lemma evolves_exec: "evolves opts w (exec opts acts w)"
proof (induction acts arbitrary: w)
  case Nil
  show ?case by (simp add: evolves_refl)
next
  case (Cons a acts)
  show ?case using Cons [of "step opts a w"] evolves_step evolves_trans by fastforce
qed

section \<open>The spinner\<close>

lemma paint_frameIdx: "frameIdx (paint opts lbl pct w) = frameIdx w + 1"
  by (simp add: paint_def emit_def)

lemma paint_effects:
  "effects (paint opts lbl pct w) = effects w @ [StdoutWrite (frame_line opts lbl pct (frameIdx w))]"
  by (simp add: paint_def emit_def)

lemma two_bars_frameIdx: "frameIdx (exec default_options two_bars (init_world ())) = 5"
  by (simp add: two_bars_def init_world_def start_def setInterval_def paint_def emit_def
      fire_def stop_def clearInterval_def succeed_def Let_def)

text \<open>
  Claim C7. Every call of \<^verbatim>\<open>paint\<close> advances the frame index of the engine instance by
  exactly 1 and shows the glyph \<^verbatim>\<open>spinnerFrames[index mod frameCount]\<close>. The index belongs
  to the instance: over any sequence of calls and events, whichever bar or run paints,
  the frames written show the glyphs of consecutive indices, from the index before the
  sequence to the index after it.
\<close>

theorem spinner_continues:
  "frameIdx (paint opts lbl pct w) = frameIdx w + 1
   \<and> effects (paint opts lbl pct w)
       = effects w @ [StdoutWrite (frame_line opts lbl pct (frameIdx w))]
   \<and> frame_line opts lbl pct (frameIdx w) ! 2
       = Styled Cyan (spinner_at (spinnerFrames opts) (frameIdx w))
   \<and> (spinnerFrames opts \<noteq> [] \<longrightarrow>
        spinner_at (spinnerFrames opts) (frameIdx w)
          = spinnerFrames opts ! (frameIdx w mod length (spinnerFrames opts)))
   \<and> (\<exists>new. effects (exec opts acts w) = effects w @ new
         \<and> spinners new
             = map (spinner_at (spinnerFrames opts)) [frameIdx w..<frameIdx (exec opts acts w)])"
proof -
  have "evolves opts w (exec opts acts w)" by (rule evolves_exec)
  then have "\<exists>new. effects (exec opts acts w) = effects w @ new
         \<and> spinners new
             = map (spinner_at (spinnerFrames opts)) [frameIdx w..<frameIdx (exec opts acts w)]"
    unfolding evolves_def by blast
  then show ?thesis
    by (simp add: paint_frameIdx paint_effects frame_line_def spinner_at_def)
qed

theorem spinner_continues_witness:
  "spinnerFrames default_options \<noteq> []
   \<and> frameIdx (exec default_options two_bars (init_world ())) = 5
   \<and> spinner_at (spinnerFrames default_options) 4 = braille 0xBC
   \<and> spinners (effects (exec default_options two_bars (init_world ())))
       = map (spinner_at (spinnerFrames default_options)) [0..<5]"
proof -
  have ne: "spinnerFrames default_options \<noteq> []" by (simp add: default_options_def)
  have at: "spinner_at (spinnerFrames default_options) 4 = braille 0xBC"
    by (simp add: default_options_def spinner_at_def)
  have e: "effects (init_world ()) = []" and i: "frameIdx (init_world ()) = 0"
    by (simp_all add: init_world_def)
  show ?thesis
    using spinner_continues [of default_options "''x''" 0 "init_world ()" two_bars]
      ne at two_bars_frameIdx
    by (auto simp add: e i)
qed

section \<open>Stopping a handle\<close>

text \<open>
  Claim C10. For every handle returned by \<^verbatim>\<open>start\<close>, a second call of \<^verbatim>\<open>stop\<close> changes
  nothing: directly after the first, and also after any calls and events since, as a
  cancelled timer stays cancelled and its identifier is not given out again.
\<close>

theorem stop_twice:
  assumes "start opts lbl p w0 = (h, w)"
  shows "stop h (stop h w) = stop h w
       \<and> stop h (exec opts acts2 (stop h (exec opts acts1 w)))
           = exec opts acts2 (stop h (exec opts acts1 w))"
proof -
  let ?wa = "exec opts acts1 w"
  let ?wb = "stop h ?wa"
  let ?wc = "exec opts acts2 ?wb"
  have h: "timer_id h = fresh w0 + 1" and f: "fresh w = fresh w0 + 2"
    using assms by (auto simp add: start_def Let_def setInterval_def paint_def emit_def)
  have "evolves opts w ?wa" by (rule evolves_exec)
  then have "fresh w \<le> fresh ?wa" by (simp add: evolves_def)
  then have lt: "timer_id h < fresh ?wb" using h f by (simp add: stop_def clearInterval_def)
  have none: "timers ?wb (timer_id h) = None" by (simp add: stop_def clearInterval_def)
  have "evolves opts ?wb ?wc" by (rule evolves_exec)
  then have "timers ?wc (timer_id h) = None" using lt none unfolding evolves_def by blast
  then have "(timers ?wc)(timer_id h := None) = timers ?wc" by (simp add: fun_upd_idem)
  then have "stop h ?wc = ?wc" by (simp add: stop_def clearInterval_def)
  then show ?thesis by (simp add: stop_def clearInterval_def)
qed

theorem stop_twice_witness:
  "fst started = \<lparr>pct_cell = 0, timer_id = 1\<rparr>
   \<and> timers (snd started) 1 \<noteq> None
   \<and> stop (fst started) (stop (fst started) (snd started)) = stop (fst started) (snd started)
   \<and> stop (fst started)
        (exec default_options [Fire 1, CallInfo ''note'']
           (stop (fst started) (exec default_options [Fire 1, Fire 1] (snd started))))
       = exec default_options [Fire 1, CallInfo ''note'']
           (stop (fst started) (exec default_options [Fire 1, Fire 1] (snd started)))"
proof -
  have s: "start default_options ''Querying tables'' 0 (init_world ()) = (fst started, snd started)"
    by (simp add: started_def)
  have a: "fst started = \<lparr>pct_cell = 0, timer_id = 1\<rparr>"
    by (simp add: started_def start_def Let_def setInterval_def init_world_def)
  have b: "timers (snd started) 1 \<noteq> None"
    by (simp add: started_def start_def Let_def setInterval_def init_world_def paint_def emit_def)
  show ?thesis
    using stop_twice [OF s, of "[Fire 1, CallInfo ''note'']" "[Fire 1, Fire 1]"] a b
    by simp
qed

section \<open>The final states\<close>

lemma text_of_simps [simp]:
  "text_of [] = []"
  "text_of (Plain s # ps) = s @ text_of ps"
  "text_of (Styled st s # ps) = s @ text_of ps"
  by (simp_all add: text_of_def)

lemma pad_replicate: "pad opts = replicate (indent opts) CHR '' ''"
  by (induction "indent opts" arbitrary: opts) (simp_all add: pad_def repeat_def replicate_append_same)

lemma no_cr_prefix:
  assumes "hd m \<noteq> CR" and "m \<noteq> []"
  shows "take (length cr_erase_line) (pad opts @ m @ rest) \<noteq> cr_erase_line"
proof (cases "indent opts")
  case 0
  then have "pad opts = []" by (simp add: pad_replicate)
  then have "hd (take (length cr_erase_line) (pad opts @ m @ rest)) = hd m"
    using assms(2) by (cases m) (simp_all add: cr_erase_line_def)
  then show ?thesis using assms(1) by (auto simp add: cr_erase_line_def)
next
  case (Suc n)
  then have "pad opts = CHR '' '' # replicate n CHR '' ''" by (simp add: pad_replicate)
  then show ?thesis by (simp add: cr_erase_line_def CR_def)
qed

text \<open>
  Claim C8, as amended. For every label, \<^verbatim>\<open>info\<close> and \<^verbatim>\<open>warn\<close> write once the padding, a
  glyph, the label and a newline, with no carriage return or erase sequence before it;
  \<^verbatim>\<open>succeed\<close> and \<^verbatim>\<open>fail\<close> write once the carriage return and the erase-line sequence
  (so that the line replaces what the terminal line showed), then the padding, a glyph,
  the label and a newline. None of the four changes anything but the terminal: no
  timer, no frame index.
\<close>

theorem final_states_print:
  "(\<exists>l. succeed opts lbl w = w\<lparr>effects := effects w @ [StdoutWrite l]\<rparr>
        \<and> text_of l = cr_erase_line @ pad opts @ check_mark @ '' '' @ lbl @ [LF]
        \<and> starts_with_cr_erase (StdoutWrite l))
   \<and> (\<exists>l. fail opts lbl w = w\<lparr>effects := effects w @ [StdoutWrite l]\<rparr>
        \<and> text_of l = cr_erase_line @ pad opts @ cross_mark @ '' '' @ lbl @ [LF]
        \<and> starts_with_cr_erase (StdoutWrite l))
   \<and> (\<exists>l. info opts lbl w = w\<lparr>effects := effects w @ [StdoutWrite l]\<rparr>
        \<and> text_of l = pad opts @ circle_mark @ '' '' @ lbl @ [LF]
        \<and> \<not> starts_with_cr_erase (StdoutWrite l))
   \<and> (\<exists>l. warn opts lbl w = w\<lparr>effects := effects w @ [StdoutWrite l]\<rparr>
        \<and> text_of l = pad opts @ warning_mark @ '' '' @ lbl @ [LF]
        \<and> \<not> starts_with_cr_erase (StdoutWrite l))"
proof -
  have c: "hd circle_mark \<noteq> CR" "circle_mark \<noteq> []"
    by (simp_all add: circle_mark_def CR_def)
  have m: "hd warning_mark \<noteq> CR" "warning_mark \<noteq> []"
    by (simp_all add: warning_mark_def CR_def)
  have 1: "\<exists>l. succeed opts lbl w = w\<lparr>effects := effects w @ [StdoutWrite l]\<rparr>
        \<and> text_of l = cr_erase_line @ pad opts @ check_mark @ '' '' @ lbl @ [LF]
        \<and> starts_with_cr_erase (StdoutWrite l)"
    by (rule exI [of _ "[Plain cr_erase_line, Plain (pad opts), Styled Green check_mark,
                        Plain '' '', Plain lbl, Plain [LF]]"])
       (simp add: succeed_def succeed_line_def emit_def starts_with_cr_erase_def)
  have 2: "\<exists>l. fail opts lbl w = w\<lparr>effects := effects w @ [StdoutWrite l]\<rparr>
        \<and> text_of l = cr_erase_line @ pad opts @ cross_mark @ '' '' @ lbl @ [LF]
        \<and> starts_with_cr_erase (StdoutWrite l)"
    by (rule exI [of _ "[Plain cr_erase_line, Plain (pad opts), Styled Red cross_mark,
                        Plain '' '', Plain lbl, Plain [LF]]"])
       (simp add: fail_def fail_line_def emit_def starts_with_cr_erase_def)
  have 3: "\<exists>l. info opts lbl w = w\<lparr>effects := effects w @ [StdoutWrite l]\<rparr>
        \<and> text_of l = pad opts @ circle_mark @ '' '' @ lbl @ [LF]
        \<and> \<not> starts_with_cr_erase (StdoutWrite l)"
    using no_cr_prefix [OF c, of opts "'' '' @ lbl @ [LF]"]
    by (intro exI [of _ "[Plain (pad opts), Styled Dim circle_mark,
                        Plain '' '', Plain lbl, Plain [LF]]"])
       (simp add: info_def emit_def starts_with_cr_erase_def)
  have 4: "\<exists>l. warn opts lbl w = w\<lparr>effects := effects w @ [StdoutWrite l]\<rparr>
        \<and> text_of l = pad opts @ warning_mark @ '' '' @ lbl @ [LF]
        \<and> \<not> starts_with_cr_erase (StdoutWrite l)"
    using no_cr_prefix [OF m, of opts "'' '' @ lbl @ [LF]"]
    by (intro exI [of _ "[Plain (pad opts), Styled Yellow warning_mark,
                        Plain '' '', Plain lbl, Plain [LF]]"])
       (simp add: warn_def emit_def starts_with_cr_erase_def)
  show ?thesis using 1 2 3 4 by blast
qed

text \<open>Claim C8 as stated fails for \<^verbatim>\<open>succeed\<close> and \<^verbatim>\<open>fail\<close>: their write starts with the
  carriage return and the erase-line sequence.\<close>

theorem succeed_and_fail_erase_the_line:
  "map starts_with_cr_erase (effects (succeed default_options ''done'' (init_world ()))) = [True]
   \<and> map starts_with_cr_erase (effects (fail default_options ''build'' (init_world ()))) = [True]"
  by (simp add: succeed_def fail_def succeed_line_def fail_line_def emit_def init_world_def
      starts_with_cr_erase_def)

section \<open>Output of a tracked run\<close>

lemma run_like_refl: "run_like r r"
  by (simp add: run_like_def)

lemma keeps_run_refl: "keeps_run rid w w"
  by (simp add: keeps_run_def run_like_refl)

lemma keeps_run_trans: "keeps_run rid w1 w2 \<Longrightarrow> keeps_run rid w2 w3 \<Longrightarrow> keeps_run rid w1 w3"
  unfolding keeps_run_def run_like_def by (metis (no_types, lifting))

lemma keeps_run_same: "runs w' = runs w \<Longrightarrow> keeps_run rid w w'"
  by (simp add: keeps_run_def run_like_refl)

lemma keeps_run_add_stderr: "keeps_run rid w (add_stderr rid' text w)"
  by (auto simp add: keeps_run_def add_stderr_def run_like_def split: option.splits)

lemma keeps_run_increment: "keeps_run rid w (increment rid' w)"
  by (auto simp add: keeps_run_def increment_def Let_def setPct_def run_like_def
      split: option.splits)

lemma keeps_run_run_bar: "keeps_run rid w (run_bar rid' h prog w)"
proof (induction prog arbitrary: w)
  case (BarReturn u)
  show ?case by (simp add: keeps_run_same)
next
  case (BarSetPct v k)
  have "keeps_run rid w (setPct h v w)" by (simp add: keeps_run_same setPct_def)
  then show ?case using BarSetPct [of "setPct h v w"] keeps_run_trans by fastforce
next
  case (BarGetPct f)
  show ?case using BarGetPct by simp
next
  case (BarIncrement k)
  show ?case
    using BarIncrement [of "increment rid' w"] keeps_run_increment keeps_run_trans by fastforce
qed

lemma effects_run_bar: "effects (run_bar rid h prog w) = effects w"
proof (induction prog arbitrary: w)
  case (BarIncrement k)
  have "effects (increment rid w) = effects w"
    by (simp add: increment_def Let_def setPct_def split: option.splits)
  then show ?case using BarIncrement by simp
qed (simp_all add: setPct_def)

lemma keeps_run_parse_chunk: "keeps_run rid w (parse_chunk rid' r text w)"
  by (rule keeps_run_same)
     (simp add: parse_chunk_def Let_def case_prod_beta setPct_def emit_def split: option.splits)

lemma keeps_run_observe_chunk: "keeps_run rid w (observe_chunk rid' r text w)"
proof (cases "onOutput (cfg r)")
  case None
  then show ?thesis by (simp add: observe_chunk_def keeps_run_refl)
next
  case (Some g)
  have "keeps_run rid w (emit (Invoke rid' (OnOutput text)) w)"
    by (simp add: keeps_run_same emit_def)
  then show ?thesis
    using Some keeps_run_run_bar keeps_run_trans by (fastforce simp add: observe_chunk_def emit_def)
qed

lemma keeps_run_processData: "keeps_run rid w (processData rid' r text b w)"
proof -
  let ?w1 = "if b then add_stderr rid' text w else w"
  have 1: "keeps_run rid w ?w1" by (simp add: keeps_run_add_stderr keeps_run_refl)
  have 2: "keeps_run rid w (parse_chunk rid' r text ?w1)"
    using 1 keeps_run_parse_chunk keeps_run_trans by blast
  show ?thesis
    unfolding processData_def Let_def using 2 keeps_run_observe_chunk keeps_run_trans by blast
qed

lemma effects_add_stderr: "effects (add_stderr rid text w) = effects w"
  by (simp add: add_stderr_def split: option.splits)

lemma user_add_stderr: "user (add_stderr rid text w) = user w"
  by (simp add: add_stderr_def split: option.splits)

lemma pcts_add_stderr: "pcts (add_stderr rid text w) = pcts w"
  by (simp add: add_stderr_def split: option.splits)

lemma effects_parse_chunk:
  "effects (parse_chunk rid r text w)
     = effects w @ (case parseProgress (cfg r) of None \<Rightarrow> []
                    | Some f \<Rightarrow> [Invoke rid (ParseProgress text)])"
  by (simp add: parse_chunk_def Let_def case_prod_beta setPct_def emit_def split: option.splits)

lemma effects_observe_chunk:
  "effects (observe_chunk rid r text w)
     = effects w @ (case onOutput (cfg r) of None \<Rightarrow> [] | Some g \<Rightarrow> [Invoke rid (OnOutput text)])"
  by (simp add: observe_chunk_def effects_run_bar emit_def split: option.splits)

lemma effects_processData:
  "effects (processData rid r text b w) = effects w @ chunk_calls rid (cfg r) text"
  by (simp add: processData_def Let_def effects_observe_chunk effects_parse_chunk
      effects_add_stderr chunk_calls_def)

lemma on_data_tracked:
  "runs w rid = Some r \<Longrightarrow> kind r = Tracked \<Longrightarrow> \<not> exited r \<Longrightarrow>
   on_data rid b text w = processData rid r text b w"
  by (simp add: on_data_def)

lemma effects_chunks:
  assumes "runs w rid = Some r" and "kind r = Tracked" and "\<not> exited r"
  shows "effects (exec opts (map (\<lambda>(b, t). Data rid b t) chunks) w)
       = effects w @ concat (map (\<lambda>(b, t). chunk_calls rid (cfg r) t) chunks)"
  using assms
proof (induction chunks arbitrary: w r)
  case Nil
  show ?case by simp
next
  case (Cons c chunks)
  obtain b t where c: "c = (b, t)" by (cases c)
  let ?w1 = "processData rid r t b w"
  have s: "step opts (Data rid b t) w = ?w1" using Cons.prems by (simp add: on_data_tracked)
  have "keeps_run rid w ?w1" by (rule keeps_run_processData)
  then obtain r' where r': "runs ?w1 rid = Some r'" "run_like r r'"
    using Cons.prems(1) unfolding keeps_run_def by blast
  have k: "kind r' = Tracked" "\<not> exited r'" "cfg r' = cfg r"
    using r'(2) Cons.prems by (simp_all add: run_like_def)
  have "effects (exec opts (map (\<lambda>(b, t). Data rid b t) chunks) ?w1)
       = effects ?w1 @ concat (map (\<lambda>(b, t). chunk_calls rid (cfg r') t) chunks)"
    using Cons.IH [OF r'(1) k(1) k(2)] .
  then show ?case using c s k(3) by (simp add: effects_processData)
qed

lemmas run_defs = runTracked_def runEstimated_def start_def setInterval_def paint_def emit_def
  new_promise_def spawn_def Let_def init_world_def

lemma tracked_facts:
  "runs tracked 3 = Some tracked_run" "promises tracked 2 = Some Pending" "fresh tracked = 4"
  "pcts tracked 0 = 0" "user tracked = ()" "frameIdx tracked = 1"
  "effects tracked = [StdoutWrite (frame_line default_options ''Running migrations'' 0 0),
                      Spawn 3 ''npx migrate up'' ''/'']"
  by (simp_all add: tracked_def tracked_run_def run_defs tracked_opts_def or_else_def)

lemma estimated_facts:
  "runs estimated 4 = Some estimated_run" "promises estimated 3 = Some Pending"
  "fresh estimated = 5" "pcts estimated 0 = 0" "user estimated = ()" "frameIdx estimated = 1"
  "timers estimated 2
     = Some (200, PctCb 0 (Fin (8218849417625599 / 2 ^ 38)) \<lparr>pct_cell = 0, timer_id = 1\<rparr>)"
  "math_exp estimated = exp64"
proof -
  show "runs estimated 4 = Some estimated_run" "promises estimated 3 = Some Pending"
    "fresh estimated = 5" "pcts estimated 0 = 0" "user estimated = ()" "frameIdx estimated = 1"
    "math_exp estimated = exp64"
    by (simp_all add: estimated_def estimated_run_def run_defs estimated_opts_def or_else_def
        default_options_def)
  have a: "estimatedMs estimated_opts = 26000" "estimateBuffer default_options = 15 / 100"
    by (simp_all add: estimated_opts_def default_options_def)
  have "timers estimated 2
      = Some (200, PctCb 0 (num_mul (lit (estimatedMs estimated_opts))
                 (num_add (Fin 1) (lit (estimateBuffer default_options))))
               \<lparr>pct_cell = 0, timer_id = 1\<rparr>)"
    by (simp add: estimated_def run_defs)
  then show "timers estimated 2
     = Some (200, PctCb 0 (Fin (8218849417625599 / 2 ^ 38)) \<lparr>pct_cell = 0, timer_id = 1\<rparr>)"
    by (simp only: a adjusted_default)
qed

lemma parse_chunk_ratio:
  assumes "parseProgress (cfg r) = Some f"
  shows "(\<forall>v. fst (f text (user w)) = Some v \<longrightarrow> getPct (render r) (parse_chunk rid r text w) = v)
       \<and> (fst (f text (user w)) = None \<longrightarrow> pcts (parse_chunk rid r text w) = pcts w)"
  using assms
  by (simp add: parse_chunk_def Let_def case_prod_beta setPct_def getPct_def emit_def)

lemma parse_chunk_user:
  assumes "parseProgress (cfg r) = Some f"
  shows "user (parse_chunk rid r text w) = snd (f text (user w))"
  using assms
  by (simp add: parse_chunk_def Let_def case_prod_beta setPct_def emit_def split: option.splits)

lemma add_stderr_user: "user (if b then add_stderr rid text w else w) = user w"
  by (simp add: add_stderr_def split: option.splits)

lemma add_stderr_pcts: "pcts (if b then add_stderr rid text w else w) = pcts w"
  by (simp add: add_stderr_def split: option.splits)

text \<open>
  Claim C9. In a tracked run every chunk of output, from stdout or stderr, is handled
  by \<^verbatim>\<open>processData\<close>: the parser, if configured, is called on the chunk first and the
  observer, if configured, after it, on the state the parser left; each is called
  whatever the other returned or did. Chunks are handled in the order of arrival.
  The state after the chunk is the one that the observer, run on the chunk with the
  \<^verbatim>\<open>bar\<close> of the run, makes of the state the parser left (that state itself without
  an observer); the parser has been applied to the chunk and to the state of the
  callbacks before it, and has left the ratio it returned, or none changed.
\<close>

theorem parser_before_observer:
  assumes "runs w rid = Some r" and "kind r = Tracked" and "\<not> exited r"
  shows "step opts (Data rid b text) w
           = observe_chunk rid r text
               (parse_chunk rid r text (if b then add_stderr rid text w else w))
       \<and> effects (step opts (Data rid b text) w)
           = effects w
             @ (case parseProgress (cfg r) of None \<Rightarrow> []
                | Some f \<Rightarrow> [Invoke rid (ParseProgress text)])
             @ (case onOutput (cfg r) of None \<Rightarrow> []
                | Some g \<Rightarrow> [Invoke rid (OnOutput text)])
       \<and> effects (exec opts (map (\<lambda>(b, t). Data rid b t) chunks) w)
           = effects w @ concat (map (\<lambda>(b, t). chunk_calls rid (cfg r) t) chunks)
       \<and> (\<forall>g. onOutput (cfg r) = Some g \<longrightarrow>
            step opts (Data rid b text) w
              = run_bar rid (render r)
                  (g text (user (parse_chunk rid r text
                                   (if b then add_stderr rid text w else w))))
                  (emit (Invoke rid (OnOutput text))
                     (parse_chunk rid r text (if b then add_stderr rid text w else w))))
       \<and> (onOutput (cfg r) = None \<longrightarrow>
            step opts (Data rid b text) w
              = parse_chunk rid r text (if b then add_stderr rid text w else w))
       \<and> (\<forall>f. parseProgress (cfg r) = Some f \<longrightarrow>
            user (parse_chunk rid r text (if b then add_stderr rid text w else w))
              = snd (f text (user w))
            \<and> (\<forall>v. fst (f text (user w)) = Some v \<longrightarrow>
                 getPct (render r)
                   (parse_chunk rid r text (if b then add_stderr rid text w else w)) = v)
            \<and> (fst (f text (user w)) = None \<longrightarrow>
                 pcts (parse_chunk rid r text (if b then add_stderr rid text w else w))
                   = pcts w))
       \<and> (parseProgress (cfg r) = None \<longrightarrow>
            parse_chunk rid r text (if b then add_stderr rid text w else w)
              = (if b then add_stderr rid text w else w))"
proof -
  let ?w0 = "if b then add_stderr rid text w else w"
  let ?w1 = "parse_chunk rid r text ?w0"
  have 1: "step opts (Data rid b text) w = processData rid r text b w"
    using assms by (simp add: on_data_tracked)
  have 2: "processData rid r text b w = observe_chunk rid r text ?w1"
    by (simp add: processData_def)
  have 3: "effects (processData rid r text b w)
         = effects w
           @ (case parseProgress (cfg r) of None \<Rightarrow> []
              | Some f \<Rightarrow> [Invoke rid (ParseProgress text)])
           @ (case onOutput (cfg r) of None \<Rightarrow> []
              | Some g \<Rightarrow> [Invoke rid (OnOutput text)])"
    by (simp add: effects_processData chunk_calls_def)
  have 4: "\<forall>g. onOutput (cfg r) = Some g \<longrightarrow>
            processData rid r text b w
              = run_bar rid (render r) (g text (user ?w1)) (emit (Invoke rid (OnOutput text)) ?w1)"
    unfolding 2 by (simp add: observe_chunk_def)
  have 5: "onOutput (cfg r) = None \<longrightarrow> processData rid r text b w = ?w1"
    unfolding 2 by (simp add: observe_chunk_def)
  have 6: "\<forall>f. parseProgress (cfg r) = Some f \<longrightarrow>
            user ?w1 = snd (f text (user w))
            \<and> (\<forall>v. fst (f text (user w)) = Some v \<longrightarrow> getPct (render r) ?w1 = v)
            \<and> (fst (f text (user w)) = None \<longrightarrow> pcts ?w1 = pcts w)"
  proof (intro allI impI)
    fix f
    assume f: "parseProgress (cfg r) = Some f"
    show "user ?w1 = snd (f text (user w))
            \<and> (\<forall>v. fst (f text (user w)) = Some v \<longrightarrow> getPct (render r) ?w1 = v)
            \<and> (fst (f text (user w)) = None \<longrightarrow> pcts ?w1 = pcts w)"
      using parse_chunk_user [OF f, of rid "text" ?w0] parse_chunk_ratio [OF f, of "text" ?w0 rid]
      by (simp only: add_stderr_user add_stderr_pcts)
  qed
  have 7: "parseProgress (cfg r) = None \<longrightarrow> ?w1 = ?w0"
    by (simp add: parse_chunk_def)
  show ?thesis
    using effects_chunks [OF assms, of opts chunks] 2 3 4 5 6 7 unfolding 1
    by (simp only: simp_thms)
qed

theorem parser_before_observer_witness:
  "runs tracked 3 = Some tracked_run \<and> kind tracked_run = Tracked \<and> \<not> exited tracked_run
   \<and> effects (exec default_options [Data 3 False ''Applied'', Data 3 True ''half''] tracked)
       = effects tracked
         @ [Invoke 3 (ParseProgress ''Applied''), Invoke 3 (OnOutput ''Applied''),
            Invoke 3 (ParseProgress ''half''), Invoke 3 (OnOutput ''half'')]
   \<and> getPct \<lparr>pct_cell = 0, timer_id = 1\<rparr>
       (step default_options (Data 3 False ''Applied'') tracked) = 1 / 10
   \<and> getPct \<lparr>pct_cell = 0, timer_id = 1\<rparr>
       (step default_options (Data 3 False ''half'') tracked) = 1 / 2"
proof -
  have k: "kind tracked_run = Tracked" "\<not> exited tracked_run"
    by (simp_all add: tracked_run_def)
  have c: "chunk_calls 3 (cfg tracked_run) t = [Invoke 3 (ParseProgress t), Invoke 3 (OnOutput t)]"
    for t by (simp add: chunk_calls_def tracked_run_def tracked_opts_def)
  note th = parser_before_observer [OF tracked_facts(1) k, of default_options False _
        "[(False, ''Applied''), (True, ''half'')]"]
  have 1: "effects (exec default_options [Data 3 False ''Applied'', Data 3 True ''half''] tracked)
       = effects tracked
         @ [Invoke 3 (ParseProgress ''Applied''), Invoke 3 (OnOutput ''Applied''),
            Invoke 3 (ParseProgress ''half''), Invoke 3 (OnOutput ''half'')]"
    using th [of "''x''"] by (simp add: c)
  let ?g = "\<lambda>text u. if text = ''Applied'' then BarIncrement (BarReturn u) else BarReturn u"
  have g: "onOutput (cfg tracked_run) = Some ?g"
    and h: "render tracked_run = \<lparr>pct_cell = 0, timer_id = 1\<rparr>"
    and tot: "total_opt (cfg tracked_run) = Some 10" "completed tracked_run = 0"
    by (simp_all add: tracked_run_def tracked_opts_def)
  have p: "parse_chunk 3 tracked_run t tracked
             = (if t = ''half''
                then setPct \<lparr>pct_cell = 0, timer_id = 1\<rparr> (1 / 2)
                       ((emit (Invoke 3 (ParseProgress t)) tracked)\<lparr>user := ()\<rparr>)
                else (emit (Invoke 3 (ParseProgress t)) tracked)\<lparr>user := ()\<rparr>)" for t
    by (simp add: parse_chunk_def tracked_run_def tracked_opts_def Let_def tracked_facts)
  have s: "step default_options (Data 3 False t) tracked
       = run_bar 3 \<lparr>pct_cell = 0, timer_id = 1\<rparr>
           (?g t (user (parse_chunk 3 tracked_run t tracked)))
           (emit (Invoke 3 (OnOutput t)) (parse_chunk 3 tracked_run t tracked))" for t
    using th [of t, THEN conjunct2, THEN conjunct2, THEN conjunct2, THEN conjunct1,
        rule_format, OF g]
    by (simp add: h)
  have 2: "getPct \<lparr>pct_cell = 0, timer_id = 1\<rparr>
       (step default_options (Data 3 False ''Applied'') tracked) = 1 / 10"
    unfolding s p
    by (simp add: increment_def emit_def setPct_def getPct_def tracked_facts Let_def tot h)
  have 3: "getPct \<lparr>pct_cell = 0, timer_id = 1\<rparr>
       (step default_options (Data 3 False ''half'') tracked) = 1 / 2"
    unfolding s p by (simp add: emit_def setPct_def getPct_def)
  show ?thesis by (intro conjI tracked_facts(1) k 1 2 3)
qed

text \<open>
  Claim C4. In a tracked run with a parser, for every chunk of output: when the parser
  returns a value \<open>v\<close>, the ratio of the handle is \<open>v\<close> when the parser is done (and
  after the chunk, if there is no observer); when it returns nothing, no ratio has
  changed. So a parser that returns 0.5 and then nothing leaves the ratio at 0.5,
  across render ticks.
\<close>

theorem parsed_ratio:
  assumes "runs w rid = Some r" and "kind r = Tracked" and "\<not> exited r"
    and "parseProgress (cfg r) = Some f"
  shows "\<exists>w1. step opts (Data rid b text) w = observe_chunk rid r text w1
       \<and> (\<forall>v. fst (f text (user w)) = Some v \<longrightarrow> getPct (render r) w1 = v)
       \<and> (fst (f text (user w)) = None \<longrightarrow> pcts w1 = pcts w)
       \<and> (onOutput (cfg r) = None \<longrightarrow> step opts (Data rid b text) w = w1)"
proof -
  let ?w0 = "if b then add_stderr rid text w else w"
  let ?w1 = "parse_chunk rid r text ?w0"
  have u: "user ?w0 = user w" and p: "pcts ?w0 = pcts w"
    by (simp_all add: user_add_stderr pcts_add_stderr)
  have 1: "step opts (Data rid b text) w = observe_chunk rid r text ?w1"
    using assms(1,2,3) by (simp add: on_data_tracked processData_def)
  have 2: "\<forall>v. fst (f text (user w)) = Some v \<longrightarrow> getPct (render r) ?w1 = v"
    using parse_chunk_ratio [OF assms(4), of "text" ?w0 rid] unfolding u by blast
  have 3: "fst (f text (user w)) = None \<longrightarrow> pcts ?w1 = pcts w"
    using parse_chunk_ratio [OF assms(4), of "text" ?w0 rid] unfolding u p by blast
  have 4: "onOutput (cfg r) = None \<longrightarrow> step opts (Data rid b text) w = ?w1"
    unfolding 1 by (simp add: observe_chunk_def)
  show ?thesis by (rule exI [of _ ?w1]) (intro conjI 1 2 3 4)
qed

lemma parsed_facts:
  "runs parsed 3 = Some parsed_run" "pcts parsed 0 = 0"
  "timers parsed 1 = Some (80, RenderCb ''Running migrations'' 0)"
  by (simp_all add: parsed_def parsed_run_def parsed_opts_def tracked_run_def run_defs
      tracked_opts_def or_else_def default_options_def)

lemma parsed_run_facts:
  "kind parsed_run = Tracked" "\<not> exited parsed_run"
  "render parsed_run = \<lparr>pct_cell = 0, timer_id = 1\<rparr>"
  "onOutput (cfg parsed_run) = None"
  "parseProgress (cfg parsed_run)
     = Some (\<lambda>text u. (if text = ''half'' then Some 0.5 else None, u))"
  by (simp_all add: parsed_run_def parsed_opts_def tracked_run_def tracked_opts_def)

theorem parsed_ratio_witness:
  "runs parsed 3 = Some parsed_run
   \<and> getPct (render parsed_run) parsed = 0
   \<and> getPct (render parsed_run) (step default_options (Data 3 False ''half'') parsed) = 0.5
   \<and> getPct (render parsed_run)
        (exec default_options [Data 3 False ''half'', Fire 1, Data 3 True ''noise''] parsed) = 0.5"
proof -
  let ?f = "\<lambda>text u :: unit. (if text = ''half'' then Some (0.5 :: real) else None, u)"
  let ?s1 = "step default_options (Data 3 False ''half'') parsed"
  obtain w1 where
    a: "\<forall>v. fst (?f ''half'' (user parsed)) = Some v \<longrightarrow> getPct (render parsed_run) w1 = v"
    and b: "onOutput (cfg parsed_run) = None \<longrightarrow> ?s1 = w1"
    using parsed_ratio [OF parsed_facts(1) parsed_run_facts(1,2,5), of default_options False
        "''half''"]
    by (elim exE conjE) (rule that; assumption)
  have 1: "?s1 = w1" using b by (simp add: parsed_run_facts)
  have 2: "getPct (render parsed_run) w1 = 0.5" by (rule a [rule_format]) simp
  have e: "w1 = processData 3 parsed_run ''half'' False parsed"
    using 1 by (simp add: on_data_tracked [OF parsed_facts(1) parsed_run_facts(1,2)])
  have t0: "timers parsed (Suc 0) = Some (80, RenderCb ''Running migrations'' 0)"
    using parsed_facts(3) by simp
  have r1: "runs w1 3 = Some parsed_run"
    and t1: "timers w1 1 = Some (80, RenderCb ''Running migrations'' 0)"
    unfolding e
    by (simp_all add: processData_def observe_chunk_def parse_chunk_def parsed_run_facts
        Let_def setPct_def emit_def parsed_facts t0)
  let ?w2 = "fire default_options 1 w1"
  have w2: "?w2 = paint default_options ''Running migrations'' (pcts w1 0) w1"
    using t1 by (simp add: fire_def)
  have r2: "runs ?w2 3 = Some parsed_run" and p2: "getPct (render parsed_run) ?w2 = 0.5"
    using r1 2 unfolding w2 by (simp_all add: paint_def emit_def getPct_def)
  let ?s3 = "step default_options (Data 3 True ''noise'') ?w2"
  obtain w3 where
    c: "fst (?f ''noise'' (user ?w2)) = None \<longrightarrow> pcts w3 = pcts ?w2"
    and d: "onOutput (cfg parsed_run) = None \<longrightarrow> ?s3 = w3"
    using parsed_ratio [OF r2 parsed_run_facts(1,2,5), of default_options True "''noise''"]
    by (elim exE conjE) (rule that; assumption)
  have 3: "?s3 = w3" using d by (simp add: parsed_run_facts)
  have 4: "pcts w3 = pcts ?w2" by (rule c [rule_format]) simp
  have 5: "getPct (render parsed_run) ?s3 = 0.5" using 3 4 p2 by (simp add: getPct_def)
  have 6: "exec default_options [Data 3 False ''half'', Fire 1, Data 3 True ''noise''] parsed = ?s3"
    using 1 by simp
  have 7: "getPct (render parsed_run) parsed = 0"
    by (simp add: getPct_def parsed_run_facts parsed_facts)
  show ?thesis
    unfolding 6 using 1 2 5 7 parsed_facts(1) by simp
qed

text \<open>
  Claim C5. Each call of \<^verbatim>\<open>increment\<close> on the bar of a run adds exactly 1 to
  \<^verbatim>\<open>completed\<close>; with a total (any number other than 0, so every integer above 0) it
  then sets the ratio of the handle to \<open>completed / total\<close>; with no total (or total 0)
  it leaves every ratio as it is.
\<close>

theorem increment_counts:
  assumes "runs w rid = Some r"
  shows "\<exists>r'. runs (increment rid w) rid = Some r'
       \<and> completed r' = completed r + 1
       \<and> (\<forall>t. total_opt (cfg r) = Some t \<longrightarrow> t \<noteq> 0 \<longrightarrow>
             getPct (render r) (increment rid w) = real (completed r') / t)
       \<and> (total_opt (cfg r) = None \<longrightarrow> pcts (increment rid w) = pcts w)
       \<and> (total_opt (cfg r) = Some 0 \<longrightarrow> pcts (increment rid w) = pcts w)"
  using assms
  by (cases "total_opt (cfg r)") (auto simp add: increment_def Let_def setPct_def getPct_def)

theorem increment_counts_witness:
  "runs tracked 3 = Some tracked_run
   \<and> total_opt (cfg tracked_run) = Some 10
   \<and> map_option completed (runs (increment 3 tracked) 3) = Some 1
   \<and> getPct (render tracked_run) (increment 3 tracked) = 1 / 10"
  using increment_counts [OF tracked_facts(1)] tracked_facts(1)
  by (auto simp add: tracked_run_def tracked_opts_def)

section \<open>The sampler of an estimated run\<close>

lemma exp_accurate_D:
  assumes "exp_accurate f" and "z \<le> 0"
  shows "f z = Fin (val (f z))" and "0 \<le> val (f z)" and "val (f z) \<le> 1"
    and "\<bar>val (f z) - exp z\<bar> \<le> exp z / 2 ^ 52 + 1 / 2 ^ 1074"
proof -
  obtain y where y: "f z = Fin y" "0 \<le> y" "y \<le> 1"
      "\<bar>y - exp z\<bar> \<le> exp z / 2 ^ 52 + 1 / 2 ^ 1074"
    using assms unfolding exp_accurate_def by blast
  show "f z = Fin (val (f z))" and "0 \<le> val (f z)" and "val (f z) \<le> 1"
    and "\<bar>val (f z) - exp z\<bar> \<le> exp z / 2 ^ 52 + 1 / 2 ^ 1074"
    using y by (simp_all add: val_def)
qed

lemma decay_arg:
  assumes "0 \<le> x"
  shows "0 \<le> fl x" and "fl (- (5 / 2) * fl x) \<le> 0"
proof -
  show q: "0 \<le> fl x" using assms by (rule fl_nonneg)
  have "fl (- (5 / 2) * fl x) \<le> fl 0" using q by (intro fl_mono) simp
  then show "fl (- (5 / 2) * fl x) \<le> 0" by simp
qed

lemma decay_range:
  assumes "exp_accurate f" and "0 \<le> x"
  shows "0 \<le> decay f x" and "decay f x \<le> 1"
  using exp_accurate_D(2,3) [OF assms(1) decay_arg(2) [OF assms(2)]]
  by (simp_all add: decay_def Let_def)

lemma decay_antimono:
  assumes acc: "exp_accurate f" and mono: "exp_monotone f" and x: "0 \<le> x" and le: "x \<le> y"
  shows "decay f y \<le> decay f x"
proof -
  have y: "0 \<le> y" using x le by linarith
  have q: "fl x \<le> fl y" using le by (rule fl_mono)
  have z: "fl (- (5 / 2) * fl y) \<le> fl (- (5 / 2) * fl x)" using q by (intro fl_mono) simp
  note rx = decay_range [OF acc x] and ry = decay_range [OF acc y]
  note zx = decay_arg(2) [OF x] and zy = decay_arg(2) [OF y]
  show ?thesis
  proof (cases "2 ^ 1024 \<le> fl y \<or> fl (- (5 / 2) * fl y) \<le> - (2 ^ 1024)")
    case True
    then have "decay f y = 0" by (auto simp add: decay_def Let_def)
    then show ?thesis using rx by simp
  next
    case False
    then have ny: "\<not> 2 ^ 1024 \<le> fl y" "\<not> fl (- (5 / 2) * fl y) \<le> - (2 ^ 1024)" by simp_all
    then have nx: "\<not> 2 ^ 1024 \<le> fl x" "\<not> fl (- (5 / 2) * fl x) \<le> - (2 ^ 1024)"
      using q z by linarith+
    show ?thesis
    proof (cases "fl (- (5 / 2) * fl x) = 0")
      case True
      then have "decay f x = 1" using nx by (simp add: decay_def Let_def)
      then show ?thesis using ry by simp
    next
      case False
      then have "fl (- (5 / 2) * fl y) \<noteq> 0" using z zx by linarith
      moreover have "val (f (fl (- (5 / 2) * fl y))) \<le> val (f (fl (- (5 / 2) * fl x)))"
        using mono z zx unfolding exp_monotone_def by blast
      ultimately show ?thesis using False nx ny by (simp add: decay_def Let_def)
    qed
  qed
qed

lemma sampled:
  assumes acc: "exp_accurate f" and t: "0 \<le> t" and a: "0 < a"
  shows "sampled_ratio f (Fin t) (Fin a) = Fin (fl (nine_tenths64 * fl (1 - decay f (t / a))))"
proof -
  let ?x = "t / a"
  have x: "0 \<le> ?x" using t a by simp
  note q = decay_arg(1) [OF x] and z = decay_arg(2) [OF x]
  have e: "Math_exp f (num_mul (Fin (- (5 / 2))) (num_div (Fin t) (Fin a))) = Fin (decay f ?x)"
  proof (cases "2 ^ 1024 \<le> fl ?x")
    case True
    then show ?thesis
      using x by (simp add: num_div_pos [OF t a] round_num_nonneg num_mul_decay_inf Math_exp_def
          decay_def)
  next
    case False
    have m: "num_mul (Fin (- (5 / 2))) (num_div (Fin t) (Fin a))
               = round_num True (- (5 / 2) * fl ?x)"
      using False x q by (simp add: num_div_pos [OF t a] round_num_nonneg num_mul_decay)
    have n: "- (5 / 2) * fl ?x \<le> 0" using q by simp
    show ?thesis
      unfolding m round_num_nonpos [OF n]
      using False z exp_accurate_D(1) [OF acc z]
      by (simp add: Math_exp_def decay_def Let_def)
  qed
  note d = decay_range [OF acc x]
  have s: "0 \<le> fl (1 - decay f ?x)" "fl (1 - decay f ?x) \<le> 1"
  proof -
    show "0 \<le> fl (1 - decay f ?x)" using d by (intro fl_nonneg) simp
    have "fl (1 - decay f ?x) \<le> fl 1" using d by (intro fl_mono) simp
    then show "fl (1 - decay f ?x) \<le> 1" by simp
  qed
  show ?thesis
    unfolding sampled_ratio_def e lit_nine_tenths64 num_sub_one [OF d] num_mul_nine_tenths64 [OF s] ..
qed


lemma rounded_ratio_range:
  assumes "exp_accurate f" and "0 \<le> x"
  shows "0 \<le> rounded_ratio f x" and "rounded_ratio f x \<le> nine_tenths64"
proof -
  note d = decay_range [OF assms]
  have p: "0 < nine_tenths64" by (simp add: nine_tenths64_def)
  have s0: "0 \<le> fl (1 - decay f x)" using d by (intro fl_nonneg) simp
  have "fl (1 - decay f x) \<le> fl 1" using d by (intro fl_mono) simp
  then have s1: "fl (1 - decay f x) \<le> 1" by simp
  show "0 \<le> rounded_ratio f x"
    unfolding rounded_ratio_def using s0 p by (intro fl_nonneg) simp
  have "nine_tenths64 * fl (1 - decay f x) \<le> nine_tenths64 * 1"
    using s1 p by (intro mult_left_mono) simp_all
  then have "rounded_ratio f x \<le> fl nine_tenths64"
    unfolding rounded_ratio_def by (intro fl_mono) simp
  then show "rounded_ratio f x \<le> nine_tenths64" by (simp only: fl_nine_tenths64)
qed

lemma rounded_ratio_mono:
  assumes "exp_accurate f" and "exp_monotone f" and "0 \<le> x" and "x \<le> y"
  shows "rounded_ratio f x \<le> rounded_ratio f y"
proof -
  have "decay f y \<le> decay f x" using assms by (rule decay_antimono)
  then have "fl (1 - decay f x) \<le> fl (1 - decay f y)" by (intro fl_mono) simp
  moreover have "0 < nine_tenths64" by (simp add: nine_tenths64_def)
  ultimately have "nine_tenths64 * fl (1 - decay f x) \<le> nine_tenths64 * fl (1 - decay f y)"
    by (intro mult_left_mono) simp_all
  then show ?thesis unfolding rounded_ratio_def by (rule fl_mono)
qed

lemma exp_half_bounds: "1648 / 1000 \<le> exp (1 / 2 :: real) \<and> exp (1 / 2 :: real) \<le> 1649 / 1000"
proof -
  obtain t :: real where t: "\<bar>t\<bar> \<le> \<bar>1 / 2\<bar>"
    and e: "exp (1 / 2 :: real) = (\<Sum>m<5. ((1 / 2) ^ m) / fact m) + (exp t / fact 5) * (1 / 2) ^ 5"
    using Maclaurin_exp_le [of "1 / 2" 5] by blast
  have s: "(\<Sum>m<5. ((1 / 2 :: real) ^ m) / fact m) = 211 / 128"
    by (simp add: lessThan_nat_numeral lessThan_Suc fact_numeral power_divide)
  have "t \<le> 1 / 2" using t by simp
  then have "exp t \<le> exp (1 / 2 :: real)" by simp
  then have u: "exp t \<le> 2" using exp_half_le2 by linarith
  have l: "0 < exp t" by simp
  have r: "exp (1 / 2 :: real) = 211 / 128 + exp t / 3840"
    using e unfolding s by (simp add: fact_numeral power_divide)
  have "1648 / 1000 \<le> exp (1 / 2 :: real)" using r l by linarith
  moreover have "exp (1 / 2 :: real) \<le> 1649 / 1000" using r u by linarith
  ultimately show ?thesis by (rule conjI)
qed

lemma exp_five_halves: "exp (5 / 2 :: real) = exp (1 / 2) ^ 5"
proof -
  have "exp (1 / 2 :: real) ^ 5 = exp (5 * (1 / 2))" by (simp only: exp_of_nat_mult [symmetric] of_nat_numeral)
  then show ?thesis by simp
qed

lemma exp_five_halves_bounds: "12.15 < exp (5 / 2 :: real) \<and> exp (5 / 2 :: real) < 12.2"
proof -
  let ?e = "exp (1 / 2 :: real)"
  have lo: "(1648 / 1000) ^ 5 \<le> ?e ^ 5"
    using exp_half_bounds by (intro power_mono) simp_all
  have hi: "?e ^ 5 \<le> (1649 / 1000) ^ 5"
    using exp_half_bounds by (intro power_mono) simp_all
  have "(12.15 :: real) < (1648 / 1000) ^ 5" by (simp add: power_divide)
  moreover have "(1649 / 1000 :: real) ^ 5 < 12.2" by (simp add: power_divide)
  ultimately show ?thesis using lo hi by (simp only: exp_five_halves) linarith
qed

lemma exp_minus_five_halves_bounds:
  "0.0819 < exp (- (5 / 2) :: real) \<and> exp (- (5 / 2) :: real) < 0.0824"
proof -
  have i: "exp (- (5 / 2) :: real) = 1 / exp (5 / 2)" by (simp add: exp_minus inverse_eq_divide)
  have "1 / (12.2 :: real) < 1 / exp (5 / 2)"
    using exp_five_halves_bounds by (intro divide_strict_left_mono) simp_all
  moreover have "1 / exp (5 / 2) < 1 / (12.15 :: real)"
    using exp_five_halves_bounds by (intro divide_strict_left_mono) simp_all
  ultimately show ?thesis unfolding i by simp
qed

lemma exp_40: "exp (- 40 :: real) \<le> 1 / 2 ^ 57"
proof -
  have h: "1648 / 1000 \<le> exp (1 / 2 :: real)" using exp_half_bounds by simp
  have "exp (1 / 2 :: real) ^ 80 = exp (80 * (1 / 2))"
    by (simp only: exp_of_nat_mult [symmetric] of_nat_numeral)
  then have e: "exp (40 :: real) = exp (1 / 2) ^ 80" by simp
  have "(2 :: real) ^ 57 \<le> (1648 / 1000) ^ 80" by (simp add: power_divide)
  also have "\<dots> \<le> exp (1 / 2 :: real) ^ 80" using h by (intro power_mono) simp_all
  finally have "(2 :: real) ^ 57 \<le> exp 40" by (simp only: e)
  then have "1 / exp (40 :: real) \<le> 1 / 2 ^ 57" by (intro divide_left_mono) simp_all
  moreover have "exp (- 40 :: real) = 1 / exp 40" by (simp add: exp_minus inverse_eq_divide)
  ultimately show ?thesis by simp
qed

lemma decay_small:
  assumes acc: "exp_accurate f" and x: "16 \<le> x"
  shows "decay f x < 1 / 2 ^ 54"
proof -
  have x0: "0 \<le> x" using x by simp
  have "fl 16 \<le> fl x" using x by (rule fl_mono)
  then have q: "16 \<le> fl x" by (simp only: fl_16)
  then have "fl (- (5 / 2) * fl x) \<le> fl (- 40)" by (intro fl_mono) simp
  then have z: "fl (- (5 / 2) * fl x) \<le> - 40" by (simp only: fl_m40)
  let ?z = "fl (- (5 / 2) * fl x)"
  have z0: "?z \<le> 0" using z by simp
  have "exp ?z \<le> exp (- 40)" using z by simp
  then have e: "exp ?z \<le> 1 / 2 ^ 57" using exp_40 by linarith
  have "val (f ?z) \<le> exp ?z + (exp ?z / 2 ^ 52 + 1 / 2 ^ 1074)"
    using exp_accurate_D(4) [OF acc z0] unfolding abs_le_iff by linarith
  also have "\<dots> \<le> 1 / 2 ^ 57 + ((1 / 2 ^ 57) / 2 ^ 52 + 1 / 2 ^ 1074)"
    using e by (intro add_mono divide_right_mono) simp_all
  also have "\<dots> < 1 / 2 ^ 54" by simp
  finally have v: "val (f ?z) < 1 / 2 ^ 54" .
  show ?thesis using v z by (simp add: decay_def Let_def)
qed

lemma fl_near_one:
  assumes "0 \<le> d" and "d < 1 / 2 ^ 54"
  shows "fl (1 - d) = 1"
proof (cases "d = 0")
  case True
  then show ?thesis by simp
next
  case False
  then have d: "0 < d" using assms by simp
  have "fl (1 - d) = of_int (2 ^ 53) * 2 powi (- 1 - 52)"
  proof (rule fl_eqI)
    show "2 powi (- 1) \<le> \<bar>1 - d\<bar>" using assms by (simp add: power_int_minus_divide)
    show "\<bar>1 - d\<bar> < 2 powi (- 1 + 1)" using assms d by simp
    show "- 1022 \<le> (- 1 :: int)" by simp
    have "(1 - d) / 2 powi (- 1 - 52) - of_int (2 ^ 53) = - (d * 2 ^ 53)"
      by (simp add: power_int_minus_divide algebra_simps)
    moreover have "d * 2 ^ 53 < 1 / 2" using assms by simp
    ultimately show "\<bar>(1 - d) / 2 powi (- 1 - 52) - of_int (2 ^ 53)\<bar> < 1 / 2"
      using d by simp
  qed
  then show ?thesis by (simp add: power_int_minus_divide)
qed

lemma rounded_ratio_saturates:
  assumes "exp_accurate f" and "16 \<le> x"
  shows "rounded_ratio f x = nine_tenths64"
proof -
  have "0 \<le> x" using assms(2) by simp
  then have "0 \<le> decay f x" using assms(1) by (intro decay_range)
  then have "fl (1 - decay f x) = 1" using decay_small [OF assms] by (rule fl_near_one)
  then show ?thesis by (simp add: rounded_ratio_def fl_nine_tenths64)
qed


lemma rounded_ratio_at_estimate:
  assumes acc: "exp_accurate f"
  shows "6763 / 8192 \<le> rounded_ratio f 1" and "rounded_ratio f 1 \<le> 13541 / 16384"
proof -
  let ?y = "val (f (- (5 / 2)))"
  have d: "decay f 1 = ?y" by (simp add: decay_def Let_def fl_m52)
  have b: "\<bar>?y - exp (- (5 / 2))\<bar> \<le> exp (- (5 / 2)) / 2 ^ 52 + 1 / 2 ^ 1074"
    by (rule exp_accurate_D(4) [OF acc]) simp
  have lo: "335 / 4096 \<le> ?y" and hi: "?y \<le> 338 / 4096"
    using b exp_minus_five_halves_bounds unfolding abs_le_iff by (simp_all add: field_simps)
  have p: "0 < nine_tenths64" by (simp add: nine_tenths64_def)
  have "fl (3758 / 4096) \<le> fl (1 - ?y)" using hi by (intro fl_mono) simp
  then have s_lo: "3758 / 4096 \<le> fl (1 - ?y)"
    using fl_dyadic [of 3758 12] by simp
  have "fl (1 - ?y) \<le> fl (3761 / 4096)" using lo by (intro fl_mono) simp
  then have s_hi: "fl (1 - ?y) \<le> 3761 / 4096"
    using fl_dyadic [of 3761 12] by simp
  have "6763 / 8192 \<le> nine_tenths64 * (3758 / 4096)" by (simp add: nine_tenths64_def)
  also have "\<dots> \<le> nine_tenths64 * fl (1 - ?y)" using s_lo p by (intro mult_left_mono) simp_all
  finally have "fl (6763 / 8192) \<le> fl (nine_tenths64 * fl (1 - ?y))" by (rule fl_mono)
  then show "6763 / 8192 \<le> rounded_ratio f 1"
    using fl_dyadic [of 6763 13] by (simp add: rounded_ratio_def d)
  have "nine_tenths64 * fl (1 - ?y) \<le> nine_tenths64 * (3761 / 4096)"
    using s_hi p by (intro mult_left_mono) simp_all
  also have "\<dots> \<le> 13541 / 16384" by (simp add: nine_tenths64_def)
  finally have "fl (nine_tenths64 * fl (1 - ?y)) \<le> fl (13541 / 16384)" by (rule fl_mono)
  then show "rounded_ratio f 1 \<le> 13541 / 16384"
    using fl_dyadic [of 13541 14] by (simp add: rounded_ratio_def d)
qed

lemma exp64_accurate: "exp_accurate exp64"
  unfolding exp_accurate_def
proof (intro allI impI)
  fix x :: real
  assume "x \<le> 0"
  then have e: "0 < exp x" "exp x \<le> 1" by simp_all
  have "fl (exp x) \<le> fl 1" using e by (intro fl_mono)
  then have u: "fl (exp x) \<le> 1" by simp
  have l: "0 \<le> fl (exp x)" by (intro fl_nonneg) simp
  have r: "exp64 x = Fin (fl (exp x))" using u by (simp add: exp64_def round_num_nonneg)
  have "\<bar>fl (exp x) - exp x\<bar> \<le> exp x / 2 ^ 52 + 1 / 2 ^ 1074"
    using fl_error_rel [of "exp x"] by simp
  then show "\<exists>y. exp64 x = Fin y \<and> 0 \<le> y \<and> y \<le> 1
               \<and> \<bar>y - exp x\<bar> \<le> exp x / 2 ^ 52 + 1 / 2 ^ 1074"
    using r u l by blast
qed

lemma exp64_monotone: "exp_monotone exp64"
  unfolding exp_monotone_def
proof (intro allI impI)
  fix x y :: real
  assume le: "x \<le> y" and y: "y \<le> 0"
  have b: "fl (exp z) \<le> 1" if "z \<le> 0" for z
  proof -
    have "fl (exp z) \<le> fl 1" using that by (intro fl_mono) simp
    then show ?thesis by simp
  qed
  have v: "val (exp64 z) = fl (exp z)" if "z \<le> 0" for z
    using b [OF that] by (simp add: exp64_def round_num_nonneg val_def)
  have "fl (exp x) \<le> fl (exp y)" using le by (intro fl_mono) simp
  then show "val (exp64 x) \<le> val (exp64 y)" using le y by (simp add: v)
qed

lemma exp_lipschitz:
  fixes a b :: real
  assumes "a \<le> b" and "b \<le> 0"
  shows "exp b - exp a \<le> b - a"
proof -
  have "1 + (a - b) \<le> exp (a - b)" by (rule exp_ge_add_one_self)
  then have "1 - exp (a - b) \<le> b - a" by linarith
  moreover have "0 \<le> 1 - exp (a - b)" using assms by simp
  moreover have "exp b \<le> 1" using assms by simp
  moreover have "0 < exp b" by simp
  ultimately have "exp b * (1 - exp (a - b)) \<le> 1 * (b - a)"
    by (intro mult_mono) simp_all
  moreover have "exp b * (1 - exp (a - b)) = exp b - exp a"
    by (simp add: algebra_simps exp_add [symmetric])
  ultimately show ?thesis by simp
qed

lemma exp_close:
  fixes a b :: real
  assumes "a \<le> 0" and "b \<le> 0"
  shows "\<bar>exp a - exp b\<bar> \<le> \<bar>a - b\<bar>"
proof (cases "a \<le> b")
  case True
  then show ?thesis using exp_lipschitz [OF True assms(2)] by simp
next
  case False
  then have "b \<le> a" by simp
  then show ?thesis using exp_lipschitz [OF _ assms(1), of b] by simp
qed

lemma abs_chain:
  fixes a b c :: real
  assumes "\<bar>a - b\<bar> \<le> d" and "\<bar>b - c\<bar> \<le> e"
  shows "\<bar>a - c\<bar> \<le> d + e"
  using assms by linarith

lemma fl_error_le:
  assumes "\<bar>x\<bar> \<le> c"
  shows "\<bar>fl x - x\<bar> \<le> (c + 1) / 2 ^ 52"
proof -
  have "\<bar>fl x - x\<bar> \<le> \<bar>x\<bar> / 2 ^ 52 + 1 / 2 ^ 1074" by (rule fl_error_rel)
  also have "\<dots> \<le> c / 2 ^ 52 + 1 / 2 ^ 52"
    using assms by (intro add_mono divide_right_mono) simp_all
  also have "\<dots> = (c + 1) / 2 ^ 52" by (simp add: add_divide_distrib)
  finally show ?thesis .
qed

lemma decay_error:
  assumes acc: "exp_accurate f" and x: "0 \<le> x"
  shows "\<bar>decay f x - exp (- (5 / 2) * x)\<bar> \<le> 86 / 2 ^ 52"
proof (cases "16 \<le> x")
  case True
  have d: "decay f x < 1 / 2 ^ 54" using acc True by (rule decay_small)
  have d0: "0 \<le> decay f x" using acc x by (rule decay_range)
  have "exp (- (5 / 2) * x) \<le> exp (- 40)" using True by simp
  then have e: "exp (- (5 / 2) * x) \<le> 1 / 2 ^ 57" using exp_40 by linarith
  have e0: "0 < exp (- (5 / 2) * x)" by simp
  have "decay f x \<le> 86 / 2 ^ 52" using d by simp
  moreover have "exp (- (5 / 2) * x) \<le> 86 / 2 ^ 52" using e by simp
  ultimately show ?thesis using d0 e0 by linarith
next
  case False
  then have x16: "x \<le> 16" by simp
  let ?q = "fl x"
  let ?z = "fl (- (5 / 2) * ?q)"
  let ?E = "exp (- (5 / 2) * x)"
  have "?q \<le> fl 16" using x16 by (rule fl_mono)
  then have q16: "?q \<le> 16" by (simp only: fl_16)
  have q0: "0 \<le> ?q" using x by (rule fl_nonneg)
  have "fl (- 40) \<le> ?z" using q16 by (intro fl_mono) simp
  then have z40: "- 40 \<le> ?z" by (simp only: fl_m40)
  have z0: "?z \<le> 0" using x by (rule decay_arg)
  have h: "\<bar>?q - x\<bar> \<le> (16 + 1) / 2 ^ 52" using x x16 by (intro fl_error_le) simp
  have "- (5 / 2) * ?q - (- (5 / 2) * x) = (- (5 / 2)) * (?q - x)" by (simp add: field_simps)
  then have "\<bar>- (5 / 2) * ?q - (- (5 / 2) * x)\<bar> = \<bar>- (5 / 2) :: real\<bar> * \<bar>?q - x\<bar>"
    by (simp only: abs_mult)
  also have "\<dots> = 5 / 2 * \<bar>?q - x\<bar>" by simp
  also have "\<dots> \<le> 5 / 2 * ((16 + 1) / 2 ^ 52)" using h by (intro mult_left_mono) simp_all
  also have "\<dots> = (85 / 2) / 2 ^ 52" by simp
  finally have eq: "\<bar>- (5 / 2) * ?q - (- (5 / 2) * x)\<bar> \<le> (85 / 2) / 2 ^ 52" .
  have ez: "\<bar>?z - (- (5 / 2) * ?q)\<bar> \<le> (40 + 1) / 2 ^ 52"
    using q0 q16 by (intro fl_error_le) simp
  have "\<bar>?z - (- (5 / 2) * x)\<bar> \<le> (40 + 1) / 2 ^ 52 + (85 / 2) / 2 ^ 52"
    using ez eq by (rule abs_chain)
  then have zx: "\<bar>?z - (- (5 / 2) * x)\<bar> \<le> (167 / 2) / 2 ^ 52" by simp
  have "\<bar>exp ?z - ?E\<bar> \<le> \<bar>?z - (- (5 / 2) * x)\<bar>"
    using z0 x by (intro exp_close) simp_all
  then have ee: "\<bar>exp ?z - ?E\<bar> \<le> (167 / 2) / 2 ^ 52" using zx by linarith
  have n: "\<not> 2 ^ 1024 \<le> ?q" "\<not> ?z \<le> - (2 ^ 1024)" using q16 z40 by simp_all
  show ?thesis
  proof (cases "?z = 0")
    case True
    then have "decay f x = 1" using n by (simp add: decay_def Let_def)
    moreover have "(167 / 2) / 2 ^ 52 \<le> (86 :: real) / 2 ^ 52" by simp
    ultimately show ?thesis using ee True by simp
  next
    case False
    then have d: "decay f x = val (f ?z)" using n by (simp add: decay_def Let_def)
    have "\<bar>val (f ?z) - exp ?z\<bar> \<le> exp ?z / 2 ^ 52 + 1 / 2 ^ 1074"
      using acc z0 by (rule exp_accurate_D)
    also have "\<dots> \<le> 1 / 2 ^ 52 + 1 / 2 ^ 52"
      using z0 by (intro add_mono divide_right_mono) simp_all
    finally have "\<bar>val (f ?z) - exp ?z\<bar> \<le> 1 / 2 ^ 52 + 1 / 2 ^ 52" .
    then have "\<bar>val (f ?z) - ?E\<bar> \<le> (1 / 2 ^ 52 + 1 / 2 ^ 52) + (167 / 2) / 2 ^ 52"
      using ee by (rule abs_chain)
    then show ?thesis unfolding d by simp
  qed
qed

lemma rounded_ratio_error:
  assumes acc: "exp_accurate f" and x: "0 \<le> x"
  shows "\<bar>rounded_ratio f x - 9 / 10 * (1 - exp (- (5 / 2) * x))\<bar> \<le> 1 / 10 ^ 13"
proof -
  let ?E = "exp (- (5 / 2) * x)"
  let ?d = "decay f x"
  let ?s = "fl (1 - ?d)"
  note d = decay_range [OF acc x]
  have "\<bar>?d - ?E\<bar> \<le> 86 / 2 ^ 52" using acc x by (rule decay_error)
  moreover have "\<bar>(1 - ?d) - (1 - ?E)\<bar> = \<bar>?d - ?E\<bar>" by linarith
  ultimately have de: "\<bar>(1 - ?d) - (1 - ?E)\<bar> \<le> 86 / 2 ^ 52" by (simp only:)
  have es: "\<bar>?s - (1 - ?d)\<bar> \<le> (1 + 1) / 2 ^ 52" using d by (intro fl_error_le) simp
  have "\<bar>?s - (1 - ?E)\<bar> \<le> (1 + 1) / 2 ^ 52 + 86 / 2 ^ 52" using es de by (rule abs_chain)
  then have sE: "\<bar>?s - (1 - ?E)\<bar> \<le> 88 / 2 ^ 52" by simp
  have s0: "0 \<le> ?s" using d by (intro fl_nonneg) simp
  have "?s \<le> fl 1" using d by (intro fl_mono) simp
  then have s1: "?s \<le> 1" by simp
  have c: "9 / 10 < nine_tenths64" "nine_tenths64 - 9 / 10 \<le> 1 / 2 ^ 52"
    by (simp_all add: nine_tenths64_def)
  have cs0: "0 \<le> nine_tenths64 * ?s" using s0 c by simp
  have "nine_tenths64 * ?s \<le> 1 * 1" using s0 s1 nine_tenths64_bounds
    by (intro mult_mono) simp_all
  then have cs1: "nine_tenths64 * ?s \<le> 1" by simp
  have er: "\<bar>rounded_ratio f x - nine_tenths64 * ?s\<bar> \<le> (1 + 1) / 2 ^ 52"
    unfolding rounded_ratio_def using cs0 cs1 by (intro fl_error_le) simp
  have cc: "\<bar>nine_tenths64 * ?s - 9 / 10 * ?s\<bar> \<le> 1 / 2 ^ 52"
  proof -
    have "nine_tenths64 * ?s - 9 / 10 * ?s = (nine_tenths64 - 9 / 10) * ?s"
      by (simp add: field_simps)
    moreover have "0 \<le> (nine_tenths64 - 9 / 10) * ?s" using c s0 by simp
    moreover have "(nine_tenths64 - 9 / 10) * ?s \<le> (1 / 2 ^ 52) * 1"
      using c s0 s1 by (intro mult_mono) simp_all
    ultimately show ?thesis by simp
  qed
  have ss: "\<bar>9 / 10 * ?s - 9 / 10 * (1 - ?E)\<bar> \<le> 88 / 2 ^ 52"
  proof -
    have "9 / 10 * ?s - 9 / 10 * (1 - ?E) = 9 / 10 * (?s - (1 - ?E))" by (simp add: field_simps)
    then have "\<bar>9 / 10 * ?s - 9 / 10 * (1 - ?E)\<bar> = \<bar>9 / 10 :: real\<bar> * \<bar>?s - (1 - ?E)\<bar>"
      by (simp only: abs_mult)
    also have "\<dots> = 9 / 10 * \<bar>?s - (1 - ?E)\<bar>" by simp
    also have "\<dots> \<le> 1 * \<bar>?s - (1 - ?E)\<bar>" by (intro mult_right_mono) simp_all
    also have "\<dots> = \<bar>?s - (1 - ?E)\<bar>" by simp
    also have "\<dots> \<le> 88 / 2 ^ 52" by (rule sE)
    finally show ?thesis .
  qed
  have "\<bar>rounded_ratio f x - 9 / 10 * ?s\<bar> \<le> (1 + 1) / 2 ^ 52 + 1 / 2 ^ 52"
    using er cc by (rule abs_chain)
  then have "\<bar>rounded_ratio f x - 9 / 10 * (1 - ?E)\<bar>
          \<le> ((1 + 1) / 2 ^ 52 + 1 / 2 ^ 52) + 88 / 2 ^ 52"
    using ss by (rule abs_chain)
  also have "\<dots> \<le> 1 / 10 ^ 13" by simp
  finally show ?thesis .
qed

lemma sampled_rounded:
  assumes "exp_accurate f" and "0 \<le> t" and "0 < a"
  shows "sampled_ratio f (Fin t) (Fin a) = Fin (rounded_ratio f (t / a))"
  using sampled [OF assms] by (simp only: rounded_ratio_def)

lemma sampled_zero_zero: "sampled_ratio f (Fin 0) (Fin 0) = NaN"
  by (simp add: sampled_ratio_def num_div_def num_mul_def Math_exp_def num_sub_def num_neg_def
      num_add_def is_zero_def)

lemma sampled_by_zero:
  assumes "0 < t"
  shows "sampled_ratio f (Fin t) (Fin 0) = Fin nine_tenths64"
proof -
  have d: "num_div (Fin t) (Fin 0) = PosInf"
    using assms by (simp add: num_div_def is_zero_def is_inf_def negative_def inf_of_def)
  have m: "num_mul (Fin nine_tenths64) (Fin 1) = Fin (fl (nine_tenths64 * 1))"
    by (rule num_mul_nine_tenths64) simp_all
  show ?thesis
    unfolding sampled_ratio_def d num_mul_decay_inf lit_nine_tenths64
    using num_sub_one [of 0] m by (simp add: Math_exp_def fl_nine_tenths64)
qed

lemma spec_ratio_strict_mono:
  assumes "0 < a" and "t < t'"
  shows "spec_ratio t a < spec_ratio t' a"
proof -
  have "t / a < t' / a" using assms by (simp add: divide_strict_right_mono)
  then have "exp (- 2.5 * (t' / a)) < exp (- 2.5 * (t / a))" by simp
  then show ?thesis by (simp add: spec_ratio_def)
qed

lemma spec_ratio_below: "spec_ratio t a < 0.9"
  by (simp add: spec_ratio_def)

lemma store_ratio_Fin: "getPct h (store_ratio h (Fin v) w) = v"
  by (simp add: store_ratio_def setPct_def getPct_def)

lemma fire_sampler:
  assumes t: "timers w' i = Some (ms, PctCb s (Fin a) rnd)" and pos: "0 < a"
    and acc: "exp_accurate (math_exp w')"
    and c: "0 \<le> s" "s \<le> now w'" "now w' \<le> 2 ^ 53"
  shows "fire opts i w'
           = store_ratio rnd
               (Fin (rounded_ratio (math_exp w') (fl (fl (now w') - fl s) / a))) w'"
proof -
  note e = elapsed_num [OF c]
  have "sampled_ratio (math_exp w') (Fin (fl (fl (now w') - fl s))) (Fin a)
          = Fin (rounded_ratio (math_exp w') (fl (fl (now w') - fl s) / a))"
    using acc e(2) pos by (rule sampled_rounded)
  then show ?thesis using t by (simp add: fire_def Let_def e(1))
qed

lemma late_sample:
  fixes w :: "'u world"
  assumes t: "timers w 2 = Some (200, PctCb 0 (Fin (8218849417625599 / 2 ^ 38)) h)"
    and m: "math_exp w = exp64"
    and n: "n = 598000 \<or> n = 598200"
  shows "exec opts [Clock n, Fire 2] w = store_ratio h (Fin nine_tenths64) (w\<lparr>now := n\<rparr>)"
proof -
  let ?w = "w\<lparr>now := n\<rparr>"
  have f: "fl n = n" using n fl_int [of 598000] fl_int [of 598200] by auto
  have f0: "fl (n - 0) = n" using f by simp
  have c: "(0::real) \<le> 0" "0 \<le> now ?w" "now ?w \<le> 2 ^ 53" using n by auto
  have x: "16 \<le> n / (8218849417625599 / 2 ^ 38)" using n by auto
  have "fire opts 2 ?w
          = store_ratio h (Fin (rounded_ratio (math_exp ?w)
              (fl (fl (now ?w) - fl 0) / (8218849417625599 / 2 ^ 38)))) ?w"
    by (rule fire_sampler [OF _ _ _ c]) (simp_all add: t m exp64_accurate)
  also have "\<dots> = store_ratio h (Fin nine_tenths64) ?w"
    using rounded_ratio_saturates [OF exp64_accurate x] by (simp add: m f f0)
  finally show ?thesis by simp
qed

text \<open>
  Claim C2, with the arithmetic of the program. \<^verbatim>\<open>runEstimated\<close> registers a sampler at
  200 ms that stores in the handle the value of
  \<^verbatim>\<open>0.9 * (1 - Math.exp(-2.5 * (elapsed / adjustedMs)))\<close> in doubles, where \<^verbatim>\<open>elapsed\<close> is
  the reading of the clock less the one at the start and \<^verbatim>\<open>adjustedMs\<close> is the double
  \<^verbatim>\<open>estimatedMs * (1 + estimateBuffer)\<close>. Let \<^verbatim>\<open>adjustedMs\<close> be a positive number \<open>a\<close> and
  \<^verbatim>\<open>Math.exp\<close> be accurate where its argument is not positive. Then, a clock that has
  not run backwards given, the handle holds the sample. The sample at an elapsed time
  \<open>t \<ge> 0\<close> is a number from 0 to the double nearest 0.9, which is above 0.9; it is
  within \<open>1 / 10 ^ 13\<close> of the ratio \<open>0.9 * (1 - exp (- 2.5 * t / a))\<close> of the
  specification; a later sample is not below an earlier one if \<^verbatim>\<open>Math.exp\<close> is
  monotone; from \<open>t = 16 * a\<close> on every sample is the double nearest 0.9; and at
  \<open>t = a\<close> the sample is 0.826 to three decimals. The ratio of the specification, a
  function on the reals, is strictly increasing and below 0.9. With \<^verbatim>\<open>adjustedMs = 0\<close>
  the sample is \<^verbatim>\<open>NaN\<close> at the elapsed time 0 and the double nearest 0.9 after it; a
  sample \<^verbatim>\<open>NaN\<close> leaves the numbers of all cells as they are and is recorded.
\<close>

theorem estimated_ratio:
  fixes opts :: options and ro :: "'u run_opts" and w :: "'u world" and a :: real
  defines "adjustedMs \<equiv>
      num_mul (lit (estimatedMs ro)) (num_add (Fin 1) (lit (estimateBuffer opts)))"
    and "i \<equiv> fresh w + 2" and "rnd \<equiv> \<lparr>pct_cell = fresh w, timer_id = fresh w + 1\<rparr>"
  assumes adj: "adjustedMs = Fin a" and pos: "0 < a"
  shows "timers (snd (runEstimated opts ro w)) i = Some (200, PctCb (now w) adjustedMs rnd)
       \<and> (\<forall>w' :: 'u world. timers w' i = Some (200, PctCb (now w) adjustedMs rnd) \<longrightarrow>
            fire opts i w'
              = store_ratio rnd (sampled_ratio (math_exp w')
                  (num_sub (lit (now w')) (lit (now w))) adjustedMs) w')
       \<and> (\<forall>w' :: 'u world. timers w' i = Some (200, PctCb (now w) adjustedMs rnd) \<longrightarrow>
            exp_accurate (math_exp w') \<longrightarrow> 0 \<le> now w \<longrightarrow> now w \<le> now w' \<longrightarrow>
            now w' \<le> 2 ^ 53 \<longrightarrow>
            (\<exists>t\<ge>0. num_sub (lit (now w')) (lit (now w)) = Fin t
               \<and> sampled_ratio (math_exp w') (Fin t) adjustedMs
                   = Fin (getPct rnd (fire opts i w'))))
       \<and> (\<forall>f t. exp_accurate f \<longrightarrow> 0 \<le> t \<longrightarrow>
            (\<exists>v. sampled_ratio f (Fin t) adjustedMs = Fin v \<and> 0 \<le> v \<and> v \<le> nine_tenths64))
       \<and> (\<forall>f t t'. exp_accurate f \<longrightarrow> exp_monotone f \<longrightarrow> 0 \<le> t \<longrightarrow> t \<le> t' \<longrightarrow>
            val (sampled_ratio f (Fin t) adjustedMs) \<le> val (sampled_ratio f (Fin t') adjustedMs))
       \<and> (\<forall>f t. exp_accurate f \<longrightarrow> 16 * a \<le> t \<longrightarrow>
            sampled_ratio f (Fin t) adjustedMs = Fin nine_tenths64)
       \<and> 9 / 10 < nine_tenths64
       \<and> (\<forall>f. exp_accurate f \<longrightarrow> \<bar>val (sampled_ratio f (Fin a) adjustedMs) - 0.826\<bar> < 0.0005)
       \<and> (\<forall>t t'. t < t' \<longrightarrow> spec_ratio t a < spec_ratio t' a)
       \<and> (\<forall>t. spec_ratio t a < 0.9)
       \<and> (\<forall>f. sampled_ratio f (Fin 0) (Fin 0) = NaN)
       \<and> (\<forall>f t. 0 < t \<longrightarrow> sampled_ratio f (Fin t) (Fin 0) = Fin nine_tenths64)
       \<and> (\<forall>f t. exp_accurate f \<longrightarrow> 0 \<le> t \<longrightarrow>
            \<bar>val (sampled_ratio f (Fin t) adjustedMs) - spec_ratio t a\<bar> \<le> 1 / 10 ^ 13)
       \<and> (\<forall>w' :: 'u world. pcts (store_ratio rnd NaN w') = pcts w'
            \<and> not_numbers (store_ratio rnd NaN w') (pct_cell rnd) = Some NaN)"
proof -
  have 1: "timers (snd (runEstimated opts ro w)) i = Some (200, PctCb (now w) adjustedMs rnd)"
    by (simp add: run_defs case_prod_beta i_def rnd_def adjustedMs_def)
  have 2: "\<forall>w' :: 'u world. timers w' i = Some (200, PctCb (now w) adjustedMs rnd) \<longrightarrow>
            fire opts i w'
              = store_ratio rnd (sampled_ratio (math_exp w')
                  (num_sub (lit (now w')) (lit (now w))) adjustedMs) w'"
    by (simp add: fire_def Let_def)
  have 3: "\<forall>w' :: 'u world. timers w' i = Some (200, PctCb (now w) adjustedMs rnd) \<longrightarrow>
            exp_accurate (math_exp w') \<longrightarrow> 0 \<le> now w \<longrightarrow> now w \<le> now w' \<longrightarrow>
            now w' \<le> 2 ^ 53 \<longrightarrow>
            (\<exists>t\<ge>0. num_sub (lit (now w')) (lit (now w)) = Fin t
               \<and> sampled_ratio (math_exp w') (Fin t) adjustedMs
                   = Fin (getPct rnd (fire opts i w')))"
  proof (intro allI impI)
    fix w' :: "'u world"
    assume t: "timers w' i = Some (200, PctCb (now w) adjustedMs rnd)"
      and acc: "exp_accurate (math_exp w')"
      and c: "0 \<le> now w" "now w \<le> now w'" "now w' \<le> 2 ^ 53"
    let ?t = "fl (fl (now w') - fl (now w))"
    note e = elapsed_num [OF c]
    have s: "sampled_ratio (math_exp w') (Fin ?t) adjustedMs
               = Fin (rounded_ratio (math_exp w') (?t / a))"
      unfolding adj using acc e(2) pos by (rule sampled_rounded)
    have "fire opts i w' = store_ratio rnd (Fin (rounded_ratio (math_exp w') (?t / a))) w'"
      using t by (simp add: fire_def Let_def e(1) s)
    then have "getPct rnd (fire opts i w') = rounded_ratio (math_exp w') (?t / a)"
      by (simp only: store_ratio_Fin)
    then show "\<exists>t\<ge>0. num_sub (lit (now w')) (lit (now w)) = Fin t
               \<and> sampled_ratio (math_exp w') (Fin t) adjustedMs
                   = Fin (getPct rnd (fire opts i w'))"
      using e s by auto
  qed
  have 4: "\<forall>f t. exp_accurate f \<longrightarrow> 0 \<le> t \<longrightarrow>
            (\<exists>v. sampled_ratio f (Fin t) adjustedMs = Fin v \<and> 0 \<le> v \<and> v \<le> nine_tenths64)"
  proof (intro allI impI)
    fix f :: "real \<Rightarrow> num" and t :: real
    assume acc: "exp_accurate f" and t: "0 \<le> t"
    have x: "0 \<le> t / a" using t pos by simp
    show "\<exists>v. sampled_ratio f (Fin t) adjustedMs = Fin v \<and> 0 \<le> v \<and> v \<le> nine_tenths64"
      unfolding adj sampled_rounded [OF acc t pos]
      using rounded_ratio_range [OF acc x] by simp
  qed
  have 5: "\<forall>f t t'. exp_accurate f \<longrightarrow> exp_monotone f \<longrightarrow> 0 \<le> t \<longrightarrow> t \<le> t' \<longrightarrow>
            val (sampled_ratio f (Fin t) adjustedMs) \<le> val (sampled_ratio f (Fin t') adjustedMs)"
  proof (intro allI impI)
    fix f :: "real \<Rightarrow> num" and t t' :: real
    assume acc: "exp_accurate f" and mono: "exp_monotone f" and t: "0 \<le> t" and le: "t \<le> t'"
    have t': "0 \<le> t'" using t le by linarith
    have x: "0 \<le> t / a" and xx: "t / a \<le> t' / a" using t le pos by (simp_all add: divide_right_mono)
    show "val (sampled_ratio f (Fin t) adjustedMs) \<le> val (sampled_ratio f (Fin t') adjustedMs)"
      unfolding adj sampled_rounded [OF acc t pos] sampled_rounded [OF acc t' pos]
      using rounded_ratio_mono [OF acc mono x xx] by (simp add: val_def)
  qed
  have 6: "\<forall>f t. exp_accurate f \<longrightarrow> 16 * a \<le> t \<longrightarrow>
            sampled_ratio f (Fin t) adjustedMs = Fin nine_tenths64"
  proof (intro allI impI)
    fix f :: "real \<Rightarrow> num" and t :: real
    assume acc: "exp_accurate f" and le: "16 * a \<le> t"
    have t: "0 \<le> t" using le pos by linarith
    have x: "16 \<le> t / a" using le pos by (simp add: pos_le_divide_eq)
    show "sampled_ratio f (Fin t) adjustedMs = Fin nine_tenths64"
      unfolding adj sampled_rounded [OF acc t pos]
      using rounded_ratio_saturates [OF acc x] by simp
  qed
  have 7: "9 / 10 < nine_tenths64" by (rule nine_tenths64_bounds)
  have 8: "\<forall>f. exp_accurate f \<longrightarrow> \<bar>val (sampled_ratio f (Fin a) adjustedMs) - 0.826\<bar> < 0.0005"
  proof (intro allI impI)
    fix f :: "real \<Rightarrow> num"
    assume acc: "exp_accurate f"
    have t: "0 \<le> a" using pos by simp
    have s: "sampled_ratio f (Fin a) (Fin a) = Fin (rounded_ratio f 1)"
      using sampled_rounded [OF acc t pos] pos by simp
    show "\<bar>val (sampled_ratio f (Fin a) adjustedMs) - 0.826\<bar> < 0.0005"
      unfolding adj s abs_less_iff
      using rounded_ratio_at_estimate [OF acc] by (simp add: val_def)
  qed
  have 9: "\<forall>t t'. t < t' \<longrightarrow> spec_ratio t a < spec_ratio t' a"
    using spec_ratio_strict_mono [OF pos] by blast
  have 10: "\<forall>t. spec_ratio t a < 0.9" using spec_ratio_below by blast
  have 11: "\<forall>f. sampled_ratio f (Fin 0) (Fin 0) = NaN" using sampled_zero_zero by blast
  have 12: "\<forall>f t. 0 < t \<longrightarrow> sampled_ratio f (Fin t) (Fin 0) = Fin nine_tenths64"
    using sampled_by_zero by blast
  have 13: "\<forall>f t. exp_accurate f \<longrightarrow> 0 \<le> t \<longrightarrow>
            \<bar>val (sampled_ratio f (Fin t) adjustedMs) - spec_ratio t a\<bar> \<le> 1 / 10 ^ 13"
  proof (intro allI impI)
    fix f :: "real \<Rightarrow> num" and t :: real
    assume acc: "exp_accurate f" and t: "0 \<le> t"
    have x: "0 \<le> t / a" using t pos by simp
    have "spec_ratio t a = 9 / 10 * (1 - exp (- (5 / 2) * (t / a)))"
      by (simp add: spec_ratio_def)
    then show "\<bar>val (sampled_ratio f (Fin t) adjustedMs) - spec_ratio t a\<bar> \<le> 1 / 10 ^ 13"
      unfolding adj sampled_rounded [OF acc t pos]
      using rounded_ratio_error [OF acc x] by (simp only: val_def num.case)
  qed
  have 14: "\<forall>w' :: 'u world. pcts (store_ratio rnd NaN w') = pcts w'
            \<and> not_numbers (store_ratio rnd NaN w') (pct_cell rnd) = Some NaN"
    by (simp add: store_ratio_def)
  show ?thesis by (intro conjI 1 2 3 4 5 6 7 8 9 10 11 12 13 14)
qed

theorem estimated_ratio_witness:
  "num_mul (lit (estimatedMs estimated_opts)) (num_add (Fin 1) (lit (estimateBuffer default_options)))
     = Fin (8218849417625599 / 2 ^ 38)
   \<and> (0 :: real) < 8218849417625599 / 2 ^ 38
   \<and> timers estimated 2
       = Some (200, PctCb 0 (Fin (8218849417625599 / 2 ^ 38)) \<lparr>pct_cell = 0, timer_id = 1\<rparr>)
   \<and> exp_accurate exp64 \<and> exp_monotone exp64
   \<and> sampled_ratio exp64 (Fin 29900) (Fin (8218849417625599 / 2 ^ 38))
       = Fin (getPct \<lparr>pct_cell = 0, timer_id = 1\<rparr>
                (exec default_options [Clock 29900, Fire 2] estimated))
   \<and> val (sampled_ratio exp64 (Fin 0) (Fin (8218849417625599 / 2 ^ 38)))
       \<le> val (sampled_ratio exp64 (Fin 200) (Fin (8218849417625599 / 2 ^ 38)))
   \<and> sampled_ratio exp64 (Fin 478400) (Fin (8218849417625599 / 2 ^ 38)) = Fin nine_tenths64
   \<and> \<bar>val (sampled_ratio exp64 (Fin (8218849417625599 / 2 ^ 38))
             (Fin (8218849417625599 / 2 ^ 38))) - 0.826\<bar> < 0.0005
   \<and> spec_ratio 0 (8218849417625599 / 2 ^ 38) < spec_ratio 200 (8218849417625599 / 2 ^ 38)
   \<and> \<bar>val (sampled_ratio exp64 (Fin 200) (Fin (8218849417625599 / 2 ^ 38)))
        - spec_ratio 200 (8218849417625599 / 2 ^ 38)\<bar> \<le> 1 / 10 ^ 13"
proof -
  let ?a = "8218849417625599 / 2 ^ 38 :: real"
  let ?h = "\<lparr>pct_cell = 0, timer_id = 1\<rparr>"
  let ?w = "estimated\<lparr>now := 29900\<rparr>"
  have o: "estimatedMs estimated_opts = 26000" "estimateBuffer default_options = 15 / 100"
    by (simp_all add: estimated_opts_def default_options_def)
  have adj: "num_mul (lit (estimatedMs estimated_opts))
               (num_add (Fin 1) (lit (estimateBuffer default_options))) = Fin ?a"
    by (simp only: o adjusted_default)
  have pos: "0 < ?a" by simp
  have i: "fresh (init_world ()) + 2 = 2" "now (init_world ()) = 0"
    "\<lparr>pct_cell = fresh (init_world ()), timer_id = fresh (init_world ()) + 1\<rparr> = ?h"
    by (simp_all add: init_world_def)
  note th = estimated_ratio [where opts = default_options and ro = estimated_opts
      and w = "init_world ()" and a = ?a, OF adj pos, unfolded adj i]
  have fire: "\<forall>w' :: unit world. timers w' 2 = Some (200, PctCb 0 (Fin ?a) ?h) \<longrightarrow>
            exp_accurate (math_exp w') \<longrightarrow> (0 :: real) \<le> 0 \<longrightarrow> 0 \<le> now w' \<longrightarrow>
            now w' \<le> 2 ^ 53 \<longrightarrow>
            (\<exists>t\<ge>0. num_sub (lit (now w')) (lit 0) = Fin t
               \<and> sampled_ratio (math_exp w') (Fin t) (Fin ?a)
                   = Fin (getPct ?h (fire default_options 2 w')))"
    by (rule th [THEN conjunct2, THEN conjunct2, THEN conjunct1])
  have mono: "\<forall>f t t'. exp_accurate f \<longrightarrow> exp_monotone f \<longrightarrow> 0 \<le> t \<longrightarrow> t \<le> t' \<longrightarrow>
            val (sampled_ratio f (Fin t) (Fin ?a)) \<le> val (sampled_ratio f (Fin t') (Fin ?a))"
    by (rule th [THEN conjunct2, THEN conjunct2, THEN conjunct2, THEN conjunct2, THEN conjunct1])
  have sat: "\<forall>f t. exp_accurate f \<longrightarrow> 16 * ?a \<le> t \<longrightarrow>
            sampled_ratio f (Fin t) (Fin ?a) = Fin nine_tenths64"
    by (rule th [THEN conjunct2, THEN conjunct2, THEN conjunct2, THEN conjunct2, THEN conjunct2,
          THEN conjunct1])
  have est: "\<forall>f. exp_accurate f \<longrightarrow> \<bar>val (sampled_ratio f (Fin ?a) (Fin ?a)) - 0.826\<bar> < 0.0005"
    by (rule th [THEN conjunct2, THEN conjunct2, THEN conjunct2, THEN conjunct2, THEN conjunct2,
          THEN conjunct2, THEN conjunct2, THEN conjunct1])
  have spec: "\<forall>t t'. t < t' \<longrightarrow> spec_ratio t ?a < spec_ratio t' ?a"
    by (rule th [THEN conjunct2, THEN conjunct2, THEN conjunct2, THEN conjunct2, THEN conjunct2,
          THEN conjunct2, THEN conjunct2, THEN conjunct2, THEN conjunct1])
  have t: "timers ?w 2 = Some (200, PctCb 0 (Fin ?a) ?h)" by (simp add: estimated_facts)
  have m: "exp_accurate (math_exp ?w)" by (simp add: estimated_facts exp64_accurate)
  obtain t where e: "num_sub (lit (now ?w)) (lit 0) = Fin t"
    and s: "sampled_ratio (math_exp ?w) (Fin t) (Fin ?a)
              = Fin (getPct ?h (fire default_options 2 ?w))"
    using fire [rule_format, OF t m] by auto
  have "fl 29900 = 29900" using fl_int [of 29900] by simp
  then have "num_sub (lit 29900) (lit 0) = Fin 29900"
    using elapsed_num(1) [of 0 29900] by simp
  then have "t = 29900" using e by simp
  then have 1: "sampled_ratio exp64 (Fin 29900) (Fin ?a)
      = Fin (getPct ?h (exec default_options [Clock 29900, Fire 2] estimated))"
    using s by (simp add: estimated_facts)
  have 2: "val (sampled_ratio exp64 (Fin 0) (Fin ?a)) \<le> val (sampled_ratio exp64 (Fin 200) (Fin ?a))"
    by (rule mono [rule_format, OF exp64_accurate exp64_monotone]) simp_all
  have 3: "sampled_ratio exp64 (Fin 478400) (Fin ?a) = Fin nine_tenths64"
    by (rule sat [rule_format, OF exp64_accurate]) simp
  have 4: "\<bar>val (sampled_ratio exp64 (Fin ?a) (Fin ?a)) - 0.826\<bar> < 0.0005"
    by (rule est [rule_format, OF exp64_accurate])
  have 5: "spec_ratio 0 ?a < spec_ratio 200 ?a" by (rule spec [rule_format]) simp
  have near: "\<forall>f t. exp_accurate f \<longrightarrow> 0 \<le> t \<longrightarrow>
            \<bar>val (sampled_ratio f (Fin t) (Fin ?a)) - spec_ratio t ?a\<bar> \<le> 1 / 10 ^ 13"
    by (rule th [THEN conjunct2, THEN conjunct2, THEN conjunct2, THEN conjunct2, THEN conjunct2,
          THEN conjunct2, THEN conjunct2, THEN conjunct2, THEN conjunct2, THEN conjunct2,
          THEN conjunct2, THEN conjunct2, THEN conjunct1])
  have 6: "\<bar>val (sampled_ratio exp64 (Fin 200) (Fin ?a)) - spec_ratio 200 ?a\<bar> \<le> 1 / 10 ^ 13"
    by (rule near [rule_format, OF exp64_accurate]) simp
  show ?thesis
    by (intro conjI adj pos estimated_facts(7) exp64_accurate exp64_monotone 1 2 3 4 5 6)
qed

text \<open>
  Claim C2 as stated fails: the ratio is computed in doubles. An estimated run with
  the default buffer and an estimate of 26 seconds stores, 598 seconds after its start,
  the double nearest 0.9, which is above 0.9, and 200 ms later the same ratio again.
\<close>

theorem sampler_reaches_its_bound:
  "getPct \<lparr>pct_cell = 0, timer_id = 1\<rparr>
     (exec default_options [Clock 598000, Fire 2] estimated) = nine_tenths64
   \<and> getPct \<lparr>pct_cell = 0, timer_id = 1\<rparr>
       (exec default_options [Clock 598000, Fire 2, Clock 598200, Fire 2] estimated)
     = nine_tenths64
   \<and> 9 / 10 < nine_tenths64"
proof -
  let ?h = "\<lparr>pct_cell = 0, timer_id = 1\<rparr>"
  let ?w1 = "store_ratio ?h (Fin nine_tenths64) (estimated\<lparr>now := 598000\<rparr>)"
  have 1: "exec default_options [Clock 598000, Fire 2] estimated = ?w1"
    by (rule late_sample) (simp_all add: estimated_facts)
  have t: "timers ?w1 2 = Some (200, PctCb 0 (Fin (8218849417625599 / 2 ^ 38)) ?h)"
    and m: "math_exp ?w1 = exp64"
    by (simp_all add: store_ratio_def setPct_def estimated_facts)
  have "exec default_options [Clock 598000, Fire 2, Clock 598200, Fire 2] estimated
          = exec default_options [Clock 598200, Fire 2] ?w1"
    using 1 by simp
  also have "\<dots> = store_ratio ?h (Fin nine_tenths64) (?w1\<lparr>now := 598200\<rparr>)"
    by (rule late_sample [OF t m]) simp
  finally have 2: "exec default_options [Clock 598000, Fire 2, Clock 598200, Fire 2] estimated
          = store_ratio ?h (Fin nine_tenths64) (?w1\<lparr>now := 598200\<rparr>)" .
  show ?thesis
    unfolding 1 2 by (intro conjI store_ratio_Fin nine_tenths64_bounds(1))
qed

section \<open>Completion\<close>

lemma exec_append: "exec opts (xs @ ys) w = exec opts ys (exec opts xs w)"
  by (induction xs arbitrary: w) simp_all

lemma exec_replicate_Suc:
  "exec opts (replicate (Suc n) a) w = step opts a (exec opts (replicate n a) w)"
proof -
  have "replicate (Suc n) a = replicate n a @ [a]" by (simp add: replicate_append_same)
  then show ?thesis by (simp only: exec_append exec.simps)
qed

lemma snap_frames_Suc:
  "snap_frames opts lbl c idx k (Suc n)
     = snap_frames opts lbl c idx k n
       @ [StdoutWrite (frame_line opts lbl
            (c + (1 - c) * (real (k + n + 1) / real totalFrames)) (idx + n))]"
  by (simp add: snap_frames_def)

lemma snap_ticks:
  assumes "timers w i = Some (ms, SnapCb lbl c fin k p q)" and "k + n < totalFrames"
  shows "exec opts (replicate n (Fire i)) w
       = w\<lparr>frameIdx := frameIdx w + n,
           timers := (timers w)(i \<mapsto> (ms, SnapCb lbl c fin (k + n) p q)),
           effects := effects w @ snap_frames opts lbl c (frameIdx w) k n\<rparr>"
  using assms
proof (induction n)
  case 0
  then show ?case by (simp add: snap_frames_def map_upd_triv)
next
  case (Suc n)
  let ?w = "w\<lparr>frameIdx := frameIdx w + n,
           timers := (timers w)(i \<mapsto> (ms, SnapCb lbl c fin (k + n) p q)),
           effects := effects w @ snap_frames opts lbl c (frameIdx w) k n\<rparr>"
  have lt': "k + n < totalFrames" using Suc.prems(2) by simp
  have ih: "exec opts (replicate n (Fire i)) w = ?w" by (rule Suc.IH [OF Suc.prems(1) lt'])
  have lt: "\<not> totalFrames \<le> k + n + 1" using Suc.prems(2) by simp
  have "fire opts i ?w
       = w\<lparr>frameIdx := frameIdx w + Suc n,
           timers := (timers w)(i \<mapsto> (ms, SnapCb lbl c fin (k + Suc n) p q)),
           effects := effects w @ snap_frames opts lbl c (frameIdx w) k (Suc n)\<rparr>"
    using lt by (simp add: fire_def snap_tick_def Let_def paint_def emit_def snap_frames_Suc)
  then show ?case by (simp only: exec_replicate_Suc ih step.simps)
qed

lemma snap_last:
  assumes "timers w i = Some (ms, SnapCb lbl c fin k p q)" and "k + 1 = totalFrames"
  shows "fire opts i w
       = settle_opt q (settle p Fulfilled
           (w\<lparr>frameIdx := frameIdx w + 1,
              timers := (timers w)(i := None),
              effects := effects w @ [StdoutWrite (frame_line opts lbl 1 (frameIdx w)),
                                      StdoutWrite (succeed_line opts (or_else fin lbl))]\<rparr>))"
proof -
  have e: "real k + 1 = real totalFrames" using assms(2) by simp
  have "(1 - c) * (real k + 1) / real totalFrames = (1 - c) * real totalFrames / real totalFrames"
    by (simp only: e)
  also have "\<dots> = 1 - c" by (simp add: totalFrames_def)
  finally have r: "c + (1 - c) * (real k + 1) / real totalFrames = 1" by simp
  have t: "totalFrames \<le> k + 1" using assms(2) by simp
  show ?thesis
    using assms(1) t
    by (simp add: fire_def snap_tick_def Let_def r paint_def emit_def clearInterval_def
        succeed_def settle_opt_def del: One_nat_def split: option.splits)
qed


lemma exit_ok_eq:
  "exit_ok rid code tol w
     = (accepted code tol (user w),
        w\<lparr>effects := effects w @ tolerate_calls rid code tol,
          user := tolerate_user code tol (user w)\<rparr>)"
  by (simp add: exit_ok_def accepted_def tolerate_calls_def tolerate_user_def emit_def
      case_prod_beta split: option.splits)

lemma resolve_done_eq:
  "resolve_done rid d w
     = (done_value d (user w),
        w\<lparr>effects := effects w @ done_calls rid d, user := done_user d (user w)\<rparr>)"
  by (simp add: resolve_done_def done_value_def done_calls_def done_user_def emit_def
      case_prod_beta split: option.splits done_label.splits)

lemma snapTo100_eq:
  "snapTo100 lbl c fin k w
     = (fresh w,
        w\<lparr>promises := (promises w)(fresh w \<mapsto> Pending),
          timers := (timers w)(fresh w + 1 \<mapsto> (30, SnapCb lbl c fin 0 (fresh w) k)),
          fresh := fresh w + 2\<rparr>)"
  by (simp add: snapTo100_def new_promise_def setInterval_def Let_def)

lemma report_success_eq:
  "report_success rid r w
     = w\<lparr>effects := effects w @ done_calls rid (doneLabel (cfg r)),
         user := done_user (doneLabel (cfg r)) (user w),
         promises := (promises w)(fresh w \<mapsto> Pending),
         timers := (timers w)(fresh w + 1 \<mapsto>
           (30, SnapCb (label (cfg r)) (getPct (render r) w)
                  (done_value (doneLabel (cfg r)) (user w)) 0 (fresh w) (Some (promise r)))),
         fresh := fresh w + 2\<rparr>"
  by (simp add: report_success_def resolve_done_eq snapTo100_eq getPct_def)

lemma report_failure_eq:
  "report_failure opts r code w
     = settle (promise r) (Rejected (CommandFailed code))
         (w\<lparr>effects := effects w @ [StdoutWrite (fail_line opts (label (cfg r)))]
                                 @ stderr_block r\<rparr>)"
  by (simp add: report_failure_def fail_def emit_def stderr_block_def Let_def)

lemma on_close_accepted:
  assumes "runs w rid = Some r" and "\<not> exited r"
    and "accepted code (tolerateFailure (cfg r)) (user w)"
  shows "on_close opts rid code w
       = w\<lparr>runs := (runs w)(rid \<mapsto> r\<lparr>exited := True\<rparr>),
           timers := (timers_after_close r w)(fresh w + 1 \<mapsto>
             (30, SnapCb (label (cfg r)) (getPct (render r) w)
                    (done_value (doneLabel (cfg r))
                       (tolerate_user code (tolerateFailure (cfg r)) (user w)))
                    0 (fresh w) (Some (promise r)))),
           promises := (promises w)(fresh w \<mapsto> Pending),
           fresh := fresh w + 2,
           effects := effects w @ tolerate_calls rid code (tolerateFailure (cfg r))
                                @ done_calls rid (doneLabel (cfg r)),
           user := done_user (doneLabel (cfg r))
                     (tolerate_user code (tolerateFailure (cfg r)) (user w))\<rparr>"
  using assms
  by (cases "kind r")
     (simp_all add: on_close_def close_estimated_def close_tracked_def Let_def exit_ok_eq
        report_success_eq stop_def clearInterval_def timers_after_close_def getPct_def)

lemma on_close_rejected:
  assumes "runs w rid = Some r" and "\<not> exited r"
    and "\<not> accepted code (tolerateFailure (cfg r)) (user w)"
  shows "on_close opts rid code w
       = settle (promise r) (Rejected (CommandFailed code))
          (w\<lparr>runs := (runs w)(rid \<mapsto> r\<lparr>exited := True\<rparr>),
             timers := timers_after_close r w,
             user := tolerate_user code (tolerateFailure (cfg r)) (user w),
             effects := effects w @ tolerate_calls rid code (tolerateFailure (cfg r))
                                  @ [StdoutWrite (fail_line opts (label (cfg r)))]
                                  @ stderr_block r\<rparr>)"
  using assms
  by (cases "kind r")
     (simp_all add: on_close_def close_estimated_def close_tracked_def Let_def exit_ok_eq
        report_failure_eq stop_def clearInterval_def timers_after_close_def)


lemma snap_run:
  assumes "timers w i = Some (ms, SnapCb lbl c fin 0 p q)"
  shows "exec opts (replicate 8 (Fire i)) w
       = settle_opt q (settle p Fulfilled
           (w\<lparr>frameIdx := frameIdx w + 8,
              timers := (timers w)(i := None),
              effects := effects w @ snap_frames opts lbl c (frameIdx w) 0 7
                         @ [StdoutWrite (frame_line opts lbl 1 (frameIdx w + 7)),
                            StdoutWrite (succeed_line opts (or_else fin lbl))]\<rparr>))"
proof -
  let ?w7 = "w\<lparr>frameIdx := frameIdx w + 7,
           timers := (timers w)(i \<mapsto> (ms, SnapCb lbl c fin (0 + 7) p q)),
           effects := effects w @ snap_frames opts lbl c (frameIdx w) 0 7\<rparr>"
  have 7: "exec opts (replicate 7 (Fire i)) w = ?w7"
    using snap_ticks [OF assms, of 7 opts] by (simp add: totalFrames_def)
  have t: "timers ?w7 i = Some (ms, SnapCb lbl c fin 7 p q)" by simp
  have l: "fire opts i ?w7
       = settle_opt q (settle p Fulfilled
           (?w7\<lparr>frameIdx := frameIdx ?w7 + 1,
              timers := (timers ?w7)(i := None),
              effects := effects ?w7 @ [StdoutWrite (frame_line opts lbl 1 (frameIdx ?w7)),
                                      StdoutWrite (succeed_line opts (or_else fin lbl))]\<rparr>))"
    by (rule snap_last [OF t]) (simp add: totalFrames_def)
  have e: "exec opts (replicate 8 (Fire i)) w = fire opts i ?w7"
    using exec_replicate_Suc [of opts 7 "Fire i" w] 7 by (simp add: eval_nat_numeral)
  have n: "?w7\<lparr>frameIdx := frameIdx ?w7 + 1,
              timers := (timers ?w7)(i := None),
              effects := effects ?w7 @ [StdoutWrite (frame_line opts lbl 1 (frameIdx ?w7)),
                                      StdoutWrite (succeed_line opts (or_else fin lbl))]\<rparr>
         = w\<lparr>frameIdx := frameIdx w + 8,
              timers := (timers w)(i := None),
              effects := effects w @ snap_frames opts lbl c (frameIdx w) 0 7
                         @ [StdoutWrite (frame_line opts lbl 1 (frameIdx w + 7)),
                            StdoutWrite (succeed_line opts (or_else fin lbl))]\<rparr>"
    by simp
  show ?thesis by (simp only: e l n)
qed


lemma effects_settle [simp]: "effects (settle p st w) = effects w"
  by (simp add: settle_def)

lemma timers_settle [simp]: "timers (settle p st w) = timers w"
  by (simp add: settle_def)

lemma effects_settle_opt [simp]: "effects (settle_opt k w) = effects w"
  by (simp add: settle_opt_def split: option.splits)

lemma timers_settle_opt [simp]: "timers (settle_opt k w) = timers w"
  by (simp add: settle_opt_def split: option.splits)

lemma promises_settle:
  "promises (settle p st w) q
     = (if q = p \<and> promises w p = Some Pending then Some st else promises w q)"
  by (simp add: settle_def)

lemma tracked_run_facts:
  "kind tracked_run = Tracked" "\<not> exited tracked_run"
  by (simp_all add: tracked_run_def)

lemma failing_facts:
  "runs failing 3 = Some failing_run"
  "promises failing 2 = Some Pending" "fresh failing = 4"
  "effects failing = effects tracked @ [Invoke 3 (ParseProgress (''boom'' @ [LF])),
                                        Invoke 3 (OnOutput (''boom'' @ [LF]))]"
  "user failing = ()"
  by (simp_all add: failing_def failing_run_def on_data_tracked [OF tracked_facts(1) tracked_run_facts]
      processData_def parse_chunk_def observe_chunk_def add_stderr_def emit_def Let_def
      tracked_facts tracked_run_def tracked_opts_def)

lemma blank_facts:
  "runs blank 3 = Some blank_run"
  "promises blank 2 = Some Pending" "fresh blank = 4"
  "effects blank = effects tracked @ [Invoke 3 (ParseProgress [LF]), Invoke 3 (OnOutput [LF])]"
  "user blank = ()"
  by (simp_all add: blank_def blank_run_def on_data_tracked [OF tracked_facts(1) tracked_run_facts]
      processData_def parse_chunk_def observe_chunk_def add_stderr_def emit_def Let_def
      tracked_facts tracked_run_def tracked_opts_def)

lemma trim_boom: "trim [CHR ''b'', CHR ''o'', CHR ''o'', CHR ''m'', LF] = ''boom''"
  by (simp add: trim_def white_space_def leading_def LF_def)

lemma trim_blank: "trim [LF] = []"
  by (simp add: trim_def white_space_def leading_def LF_def)

text \<open>A no-break space, U+00A0, is white space too.\<close>

lemma trim_no_break_space: "trim [CHR 0xC2, CHR 0xA0, CHR ''x'', CHR 0xC2, CHR 0xA0] = ''x''"
  by (simp add: trim_def white_space_def leading_def)

lemma failing_run_facts:
  "\<not> exited failing_run" "promise failing_run = 2"
  "label (cfg failing_run) = ''Running migrations''"
  "\<not> accepted code (tolerateFailure (cfg failing_run)) u \<longleftrightarrow> code \<noteq> Some 0"
  "tolerate_calls rid code (tolerateFailure (cfg failing_run)) = []"
  "stderr_block failing_run = [ConsoleError [Styled Red (LF # ''boom'' @ [LF])]]"
  by (simp_all add: failing_run_def tracked_run_def tracked_opts_def accepted_def
      tolerate_calls_def stderr_block_def trim_boom)

lemma blank_run_facts:
  "\<not> exited blank_run" "promise blank_run = 2"
  "label (cfg blank_run) = ''Running migrations''"
  "\<not> accepted code (tolerateFailure (cfg blank_run)) u \<longleftrightarrow> code \<noteq> Some 0"
  "tolerate_calls rid code (tolerateFailure (cfg blank_run)) = []"
  "stderr_text blank_run = [LF]"
  "stderr_block blank_run = []"
  by (simp_all add: blank_run_def tracked_run_def tracked_opts_def accepted_def
      tolerate_calls_def stderr_block_def trim_blank)

lemma estimated_run_facts:
  "\<not> exited estimated_run" "promise estimated_run = 3"
  "render estimated_run = \<lparr>pct_cell = 0, timer_id = 1\<rparr>"
  "label (cfg estimated_run) = ''Starting containers''"
  "doneLabel (cfg estimated_run) = Some (LabelFn (\<lambda>u. (Some ''Containers up'', u)))"
  "accepted code (tolerateFailure (cfg estimated_run)) u"
  by (simp_all add: estimated_run_def estimated_opts_def accepted_def)



lemma quiet_for_refl: "quiet_for rid w w"
  by (simp add: quiet_for_def)

lemma quiet_for_trans: "quiet_for rid w1 w2 \<Longrightarrow> quiet_for rid w2 w3 \<Longrightarrow> quiet_for rid w1 w3"
  by (auto simp add: quiet_for_def)

lemma quiet_for_same: "effects w' = effects w \<Longrightarrow> quiet_for rid w w'"
  by (simp add: quiet_for_def)

lemma quiet_for_new:
  "effects w' = effects w @ new \<Longrightarrow> Invoke rid TolerateFailure \<notin> set new \<Longrightarrow> quiet_for rid w w'"
  by (auto simp add: quiet_for_def)

lemma quiet_for_paint: "quiet_for rid w (paint opts lbl pct w)"
  by (rule quiet_for_new [OF paint_effects]) simp

lemma quiet_for_succeed: "quiet_for rid w (succeed opts lbl w)"
  by (simp add: quiet_for_def succeed_def emit_def)

lemma quiet_for_emit: "e \<noteq> Invoke rid TolerateFailure \<Longrightarrow> quiet_for rid w (emit e w)"
  by (simp add: quiet_for_def emit_def)

lemma quiet_for_fail: "quiet_for rid w (fail opts lbl w)"
  by (simp add: fail_def quiet_for_emit)

lemma quiet_for_info: "quiet_for rid w (info opts lbl w)"
  by (simp add: info_def quiet_for_emit)

lemma quiet_for_warn: "quiet_for rid w (warn opts lbl w)"
  by (simp add: warn_def quiet_for_emit)

lemma quiet_for_start: "quiet_for rid w (snd (start opts lbl p w))"
  by (simp add: quiet_for_def start_def Let_def setInterval_def paint_def emit_def)

lemma quiet_for_snap_tick: "quiet_for rid w (snap_tick opts i ms lbl c fin frame p k w)"
  by (simp add: quiet_for_def snap_tick_def Let_def paint_def emit_def clearInterval_def
      succeed_def settle_def split: option.splits)

lemma quiet_for_fire: "quiet_for rid w (fire opts i w)"
proof (cases "timers w i")
  case None
  then show ?thesis by (simp add: fire_def quiet_for_refl)
next
  case (Some t)
  obtain ms cb where t: "t = (ms, cb)" by (cases t)
  have "quiet_for rid w (store_ratio h n w)" for h n
    by (cases n) (simp_all add: quiet_for_same store_ratio_def setPct_def)
  then show ?thesis
    using Some t quiet_for_paint quiet_for_snap_tick
    by (cases cb) (simp_all add: fire_def Let_def)
qed

lemma quiet_for_runEstimated: "quiet_for rid w (snd (runEstimated opts ro w))"
  by (simp add: quiet_for_def run_defs case_prod_beta)

lemma quiet_for_runTracked: "quiet_for rid w (snd (runTracked opts ro w))"
  by (simp add: quiet_for_def run_defs case_prod_beta)

lemma quiet_for_on_data: "quiet_for rid w (on_data rid' b text w)"
proof -
  have "quiet_for rid w (processData rid' r text b w)" for r
    by (rule quiet_for_new [OF effects_processData])
       (simp add: chunk_calls_def split: option.splits)
  then show ?thesis
    by (simp add: on_data_def data_estimated_def quiet_for_refl quiet_for_same
        effects_add_stderr split: option.splits run_kind.splits)
qed

lemma quiet_for_on_close:
  assumes "rid' \<noteq> rid"
  shows "quiet_for rid w (on_close opts rid' code w)"
proof (cases "runs w rid'")
  case None
  then show ?thesis by (simp add: on_close_def quiet_for_refl)
next
  case (Some r)
  show ?thesis
  proof (cases "exited r")
    case True
    then show ?thesis using Some by (simp add: on_close_def quiet_for_refl)
  next
    case False
    have t: "Invoke rid TolerateFailure \<notin> set (tolerate_calls rid' code (tolerateFailure (cfg r)))"
      using assms by (simp add: tolerate_calls_def split: option.splits)
    have d: "Invoke rid TolerateFailure \<notin> set (done_calls rid' (doneLabel (cfg r)))"
      by (simp add: done_calls_def split: option.splits done_label.splits)
    have s: "Invoke rid TolerateFailure \<notin> set (stderr_block r)"
      by (simp add: stderr_block_def)
    show ?thesis
    proof (cases "accepted code (tolerateFailure (cfg r)) (user w)")
      case True
      show ?thesis
        unfolding on_close_accepted [OF Some False True] using t d
        by (simp add: quiet_for_def)
    next
      case no: False
      show ?thesis
        unfolding on_close_rejected [OF Some False no] using t s
        by (simp add: quiet_for_def)
    qed
  qed
qed

lemma quiet_for_step:
  assumes "\<forall>code. a \<noteq> Close rid code"
  shows "quiet_for rid w (step opts a w)"
proof (cases a)
  case (Close rid' code)
  then have "rid' \<noteq> rid" using assms by auto
  then show ?thesis using Close by (simp add: quiet_for_on_close)
qed (simp_all add: quiet_for_paint quiet_for_succeed quiet_for_fail quiet_for_info
       quiet_for_warn quiet_for_start quiet_for_fire quiet_for_runEstimated
       quiet_for_runTracked quiet_for_on_data quiet_for_same setPct_def stop_def
       clearInterval_def snapTo100_eq)

lemma quiet_for_exec:
  assumes "\<forall>code. Close rid code \<notin> set acts"
  shows "quiet_for rid w (exec opts acts w)"
  using assms
proof (induction acts arbitrary: w)
  case Nil
  show ?case by (simp add: quiet_for_refl)
next
  case (Cons a acts)
  have 1: "quiet_for rid w (step opts a w)"
    using Cons.prems by (intro quiet_for_step) auto
  have 2: "quiet_for rid (step opts a w) (exec opts acts (step opts a w))"
    using Cons.prems by (intro Cons.IH) auto
  show ?case using 1 2 quiet_for_trans by fastforce
qed

text \<open>
  Claim C1, as amended. At the \<^verbatim>\<open>close\<close> event of the child of a run, with exit code
  \<open>code\<close>, the command counts as successful exactly when the code is 0 or a supplied
  \<^verbatim>\<open>tolerateFailure\<close>, called then on the user state of that moment, returns true. If
  so, the promise of the run is fulfilled once the snap has painted its 8 frames, and
  no failure is printed. If not, the handler prints the failure line, prints the
  stderr text trimmed of white space as an error block when the trimmed text is not
  empty, and rejects the promise with \<open>CommandFailed code\<close>; the promise stays rejected
  and nothing is spawned or scheduled again. No sequence of calls and events without
  that \<^verbatim>\<open>close\<close> calls the \<^verbatim>\<open>tolerateFailure\<close> of the run.
\<close>

theorem close_settles_run:
  fixes w :: "'u world" and opts :: options and rid :: nat and code :: "int option"
  defines "w1 \<equiv> step opts (Close rid code) w"
  assumes run: "runs w rid = Some r" and live: "\<not> exited r"
    and pend: "promises w (promise r) = Some Pending" and old: "promise r < fresh w"
  shows "(accepted code (tolerateFailure (cfg r)) (user w) \<longrightarrow>
            promises w1 (promise r) = Some Pending
          \<and> effects w1 = effects w @ tolerate_calls rid code (tolerateFailure (cfg r))
                                    @ done_calls rid (doneLabel (cfg r))
          \<and> promises (exec opts (replicate 8 (Fire (fresh w + 1))) w1) (promise r)
              = Some Fulfilled)
       \<and> (\<not> accepted code (tolerateFailure (cfg r)) (user w) \<longrightarrow>
            promises w1 (promise r) = Some (Rejected (CommandFailed code))
          \<and> effects w1 = effects w @ tolerate_calls rid code (tolerateFailure (cfg r))
                                    @ [StdoutWrite (fail_line opts (label (cfg r)))]
                                    @ stderr_block r
          \<and> (\<forall>acts. promises (exec opts acts w1) (promise r)
                       = Some (Rejected (CommandFailed code)))
          \<and> dom (runs w1) = dom (runs w) \<and> fresh w1 = fresh w)
       \<and> accepted code (tolerateFailure (cfg r)) (user w)
           = (code = Some 0 \<or> (\<exists>f. tolerateFailure (cfg r) = Some f \<and> fst (f (user w))))
       \<and> tolerate_calls rid code (tolerateFailure (cfg r))
           = (if code \<noteq> Some 0 \<and> tolerateFailure (cfg r) \<noteq> None
              then [Invoke rid TolerateFailure] else [])
       \<and> stderr_block r
           = (if trim (stderr_text r) \<noteq> []
              then [ConsoleError [Styled Red ([LF] @ trim (stderr_text r) @ [LF])]] else [])
       \<and> (\<forall>acts (w0 :: 'u world). (\<forall>c. Close rid c \<notin> set acts) \<longrightarrow>
            (\<exists>new. effects (exec opts acts w0) = effects w0 @ new
                   \<and> Invoke rid TolerateFailure \<notin> set new))"
proof -
  let ?tol = "tolerateFailure (cfg r)"
  have A: "accepted code ?tol (user w) \<longrightarrow>
            promises w1 (promise r) = Some Pending
          \<and> effects w1 = effects w @ tolerate_calls rid code ?tol
                                    @ done_calls rid (doneLabel (cfg r))
          \<and> promises (exec opts (replicate 8 (Fire (fresh w + 1))) w1) (promise r)
              = Some Fulfilled"
  proof
    assume ok: "accepted code ?tol (user w)"
    let ?final = "done_value (doneLabel (cfg r)) (tolerate_user code ?tol (user w))"
    let ?c = "getPct (render r) w"
    have w1: "w1 = w\<lparr>runs := (runs w)(rid \<mapsto> r\<lparr>exited := True\<rparr>),
           timers := (timers_after_close r w)(fresh w + 1 \<mapsto>
             (30, SnapCb (label (cfg r)) ?c ?final 0 (fresh w) (Some (promise r)))),
           promises := (promises w)(fresh w \<mapsto> Pending),
           fresh := fresh w + 2,
           effects := effects w @ tolerate_calls rid code ?tol
                                @ done_calls rid (doneLabel (cfg r)),
           user := done_user (doneLabel (cfg r)) (tolerate_user code ?tol (user w))\<rparr>"
      unfolding w1_def step.simps by (rule on_close_accepted [OF run live ok])
    have p1: "promises w1 (promise r) = Some Pending" using pend old unfolding w1 by simp
    have p0: "promises w1 (fresh w) = Some Pending" unfolding w1 by simp
    have ne: "promise r \<noteq> fresh w" using old by simp
    have e1: "effects w1 = effects w @ tolerate_calls rid code ?tol
                                    @ done_calls rid (doneLabel (cfg r))"
      unfolding w1 by simp
    have snap: "timers w1 (fresh w + 1)
        = Some (30, SnapCb (label (cfg r)) ?c ?final 0 (fresh w) (Some (promise r)))"
      unfolding w1 by simp
    have "promises (exec opts (replicate 8 (Fire (fresh w + 1))) w1) (promise r) = Some Fulfilled"
      unfolding snap_run [OF snap] using p1 p0 ne
      by (simp add: settle_opt_def promises_settle)
    then show "promises w1 (promise r) = Some Pending
          \<and> effects w1 = effects w @ tolerate_calls rid code ?tol
                                    @ done_calls rid (doneLabel (cfg r))
          \<and> promises (exec opts (replicate 8 (Fire (fresh w + 1))) w1) (promise r)
              = Some Fulfilled"
      using p1 e1 by simp
  qed
  have B: "\<not> accepted code ?tol (user w) \<longrightarrow>
            promises w1 (promise r) = Some (Rejected (CommandFailed code))
          \<and> effects w1 = effects w @ tolerate_calls rid code ?tol
                                    @ [StdoutWrite (fail_line opts (label (cfg r)))]
                                    @ stderr_block r
          \<and> (\<forall>acts. promises (exec opts acts w1) (promise r)
                       = Some (Rejected (CommandFailed code)))
          \<and> dom (runs w1) = dom (runs w) \<and> fresh w1 = fresh w"
  proof
    assume no: "\<not> accepted code ?tol (user w)"
    have w1: "w1 = settle (promise r) (Rejected (CommandFailed code))
          (w\<lparr>runs := (runs w)(rid \<mapsto> r\<lparr>exited := True\<rparr>),
             timers := timers_after_close r w,
             user := tolerate_user code ?tol (user w),
             effects := effects w @ tolerate_calls rid code ?tol
                                  @ [StdoutWrite (fail_line opts (label (cfg r)))]
                                  @ stderr_block r\<rparr>)"
      unfolding w1_def step.simps by (rule on_close_rejected [OF run live no])
    have p1: "promises w1 (promise r) = Some (Rejected (CommandFailed code))"
      using pend unfolding w1 by (simp add: promises_settle)
    have e1: "effects w1 = effects w @ tolerate_calls rid code ?tol
                                    @ [StdoutWrite (fail_line opts (label (cfg r)))]
                                    @ stderr_block r"
      unfolding w1 by simp
    have f1: "fresh w1 = fresh w" unfolding w1 by (simp add: settle_def)
    have d1: "dom (runs w1) = dom (runs w)"
      using run unfolding w1 by (auto simp add: settle_def)
    have "promises (exec opts acts w1) (promise r) = Some (Rejected (CommandFailed code))" for acts
    proof -
      have "evolves opts w1 (exec opts acts w1)" by (rule evolves_exec)
      then show ?thesis using p1 old f1 unfolding evolves_def by auto
    qed
    then show "promises w1 (promise r) = Some (Rejected (CommandFailed code))
          \<and> effects w1 = effects w @ tolerate_calls rid code ?tol
                                    @ [StdoutWrite (fail_line opts (label (cfg r)))]
                                    @ stderr_block r
          \<and> (\<forall>acts. promises (exec opts acts w1) (promise r)
                       = Some (Rejected (CommandFailed code)))
          \<and> dom (runs w1) = dom (runs w) \<and> fresh w1 = fresh w"
      using p1 e1 f1 d1 by simp
  qed
  have C: "accepted code ?tol (user w)
           = (code = Some 0 \<or> (\<exists>f. ?tol = Some f \<and> fst (f (user w))))"
    by (cases ?tol) (simp_all add: accepted_def)
  have D: "tolerate_calls rid code ?tol
           = (if code \<noteq> Some 0 \<and> ?tol \<noteq> None then [Invoke rid TolerateFailure] else [])"
    by (cases ?tol) (simp_all add: tolerate_calls_def)
  have E: "stderr_block r
           = (if trim (stderr_text r) \<noteq> []
              then [ConsoleError [Styled Red ([LF] @ trim (stderr_text r) @ [LF])]] else [])"
    by (simp add: stderr_block_def)
  have F: "\<forall>acts (w0 :: 'u world). (\<forall>c. Close rid c \<notin> set acts) \<longrightarrow>
            (\<exists>new. effects (exec opts acts w0) = effects w0 @ new
                   \<and> Invoke rid TolerateFailure \<notin> set new)"
    using quiet_for_exec [of rid _ _ opts] unfolding quiet_for_def by blast
  show ?thesis by (intro conjI A B C D E F)
qed

theorem close_settles_run_witness:
  "runs failing 3 = Some failing_run
   \<and> promises failing 2 = Some Pending
   \<and> promises (step default_options (Close 3 (Some 2)) failing) 2
       = Some (Rejected (CommandFailed (Some 2)))
   \<and> effects (step default_options (Close 3 (Some 2)) failing)
       = effects failing @ [StdoutWrite (fail_line default_options ''Running migrations''),
                            ConsoleError [Styled Red (LF # ''boom'' @ [LF])]]
   \<and> runs estimated 4 = Some estimated_run
   \<and> promises estimated 3 = Some Pending
   \<and> promises (exec default_options (replicate 8 (Fire 6))
                  (step default_options (Close 4 (Some 2)) estimated)) 3 = Some Fulfilled"
proof -
  have f: "promises failing (promise failing_run) = Some Pending"
    "promise failing_run < fresh failing"
    by (simp_all add: failing_facts failing_run_facts)
  have e: "promises estimated (promise estimated_run) = Some Pending"
    "promise estimated_run < fresh estimated"
    by (simp_all add: estimated_run_facts estimated_facts)
  show ?thesis
    using close_settles_run [OF failing_facts(1) failing_run_facts(1) f,
        of "Some 2" default_options]
      close_settles_run [OF estimated_facts(1) estimated_run_facts(1) e,
        of "Some 2" default_options]
    by (simp add: failing_facts estimated_facts failing_run_facts estimated_run_facts)
qed

text \<open>Claim C1 as stated fails where the child wrote only white space to stderr: the
  accumulated text is not empty, and no error block is printed.\<close>

theorem blank_stderr_is_not_printed:
  "map_option stderr_text (runs blank 3) = Some [LF]
   \<and> filter is_console_error (effects (step default_options (Close 3 (Some 1)) blank)) = []
   \<and> promises (step default_options (Close 3 (Some 1)) blank) 2
       = Some (Rejected (CommandFailed (Some 1)))"
proof -
  have n: "\<not> accepted (Some 1) (tolerateFailure (cfg blank_run)) (user blank)"
    by (simp add: blank_run_facts)
  show ?thesis
    unfolding step.simps on_close_rejected [OF blank_facts(1) blank_run_facts(1) n]
    by (simp add: blank_facts tracked_facts blank_run_facts promises_settle
        is_console_error_def)
qed

end
